theory Spec2Isabelle
  imports Complex_Main
begin

section \<open>Dice To-Do: the task store and the weighted roll of \<open>src/App.js\<close>\<close>

text \<open>
  The application is one React component. Its state variables (\<open>useState\<close>) and refs
  (\<open>useRef\<close>) become the fields of a record; every handler becomes a function from the
  state before the event to the state after it. What the handlers read from the
  platform (the clock \<open>Date.now()\<close>, the draw \<open>Math.floor(Math.random() * n)\<close>, the
  button pressed in an alert, the JSON codec, the key-value storage) is passed in as
  an argument.

  A JavaScript string is a list of code units; \<open>char\<close> stands for the code units
  below 256.
\<close>

subsection \<open>Tasks\<close>

text \<open>
  The object literal built by \<open>addTask\<close>: \<open>{ id, name, priority, done, createdAt }\<close>.
  The fields carry the suffix \<open>_t\<close> (\<open>id\<close> is the identity function of HOL, and
  \<open>name\<close> and \<open>priority\<close> are state variables of the component as well).
  \<open>priority\<close> is a string, as in the source: the weighting compares it with string
  literals, and nothing in the type restricts it to the three labels.
\<close>

record task =
  id_t :: string
  name_t :: string
  priority_t :: string
  done_t :: bool
  createdAt_t :: int

subsection \<open>The weighted pick\<close>

text \<open>\<open>const w = t.priority === "High" ? 3 : t.priority === "Medium" ? 2 : 1;\<close>\<close>

definition weight :: "task \<Rightarrow> nat" where
  "weight t = (if priority_t t = ''High'' then 3 else if priority_t t = ''Medium'' then 2 else 1)"

text \<open>\<open>for (let i = 0; i < w; i++) expanded.push(t.id);\<close> with \<open>n\<close> the rounds left.\<close>

fun push_times :: "nat \<Rightarrow> string \<Rightarrow> string list \<Rightarrow> string list" where
  "push_times 0 x expanded = expanded"
| "push_times (Suc n) x expanded = push_times n x (expanded @ [x])"

text \<open>\<open>for (const t of pool) { ... }\<close>, the array \<open>expanded\<close> threaded through.\<close>

fun expand :: "task list \<Rightarrow> string list \<Rightarrow> string list" where
  "expand [] expanded = expanded"
| "expand (t # pool) expanded = expand pool (push_times (weight t) (id_t t) expanded)"

text \<open>
  \<open>pickWeightedTask(pool)\<close>. The second argument \<open>k\<close> is the value of
  \<open>Math.floor(Math.random() * expanded.length)\<close>; \<open>Math.random()\<close> lies in \<open>[0, 1)\<close>, so
  the platform only delivers \<open>k < expanded.length\<close>. An index beyond the array reads
  \<open>undefined\<close>, which no id equals, and \<open>find(...) || null\<close> is then \<open>null\<close>.
  \<open>Array.prototype.find\<close> returns the first element that satisfies the predicate.
\<close>

definition pickWeightedTask :: "task list \<Rightarrow> nat \<Rightarrow> task option" where
  "pickWeightedTask pool k =
     (if pool = [] then None
      else let expanded = expand pool []
           in if k < length expanded
              then List.find (\<lambda>p. id_t p = expanded ! k) pool
              else None)"

text \<open>
  The chance that a uniform draw of the index returns \<open>t\<close>: the share of the indices
  \<open>0, ..., expanded.length - 1\<close> at which the pick is \<open>t\<close>.
\<close>

definition pick_probability :: "task list \<Rightarrow> task \<Rightarrow> rat" where
  "pick_probability pool t =
     of_nat (length (filter (\<lambda>k. pickWeightedTask pool k = Some t) [0..<length (expand pool [])]))
       / of_nat (length (expand pool []))"

subsection \<open>The component state\<close>

text \<open>
  A scheduled callback of \<open>rollDice\<close>. Both closures capture \<open>available\<close>, the snapshot
  of the incomplete tasks taken when the roll started.
\<close>

datatype timer = Interval "task list" | Timeout "task list"

text \<open>
  The \<open>useState\<close> variables, the two \<open>useRef\<close> cells, and the platform's table of
  pending timers (from timer id to callback) with the id the next
  \<open>setInterval\<close>/\<open>setTimeout\<close> returns. A ref holds \<open>null\<close> (\<open>None\<close>) or a timer id.
\<close>

record app =
  tasks :: "task list"
  name :: string
  priority :: string
  modalVisible :: bool
  selectedTask :: "task option"
  tempSelected :: "task option"
  rolling :: bool
  error :: string
  intervalRef :: "nat option"
  timeoutRef :: "nat option"
  timers :: "nat \<Rightarrow> timer option"
  nextTimer :: nat

text \<open>The initial values of \<open>useState\<close> and \<open>useRef\<close>; timer ids start at 1.\<close>

definition initial :: app where
  "initial = \<lparr>tasks = [], name = [], priority = ''Medium'', modalVisible = False,
     selectedTask = None, tempSelected = None, rolling = False, error = [],
     intervalRef = None, timeoutRef = None, timers = Map.empty, nextTimer = 1\<rparr>"

subsection \<open>Adding, toggling and deleting\<close>

text \<open>
  \<open>String.prototype.trim\<close> strips white space and line terminators from both ends.
  Of the code units below 256 these are tab, line feed, vertical tab, form feed,
  carriage return, space and no-break space.
\<close>

definition is_whitespace :: "char \<Rightarrow> bool" where
  "is_whitespace c = ((of_char c :: nat) \<in> {9, 10, 11, 12, 13, 32, 160})"

definition trim :: "string \<Rightarrow> string" where
  "trim s = rev (dropWhile is_whitespace (rev (dropWhile is_whitespace s)))"

text \<open>
  \<open>Number.prototype.toString\<close> on an integer: its decimal digits, with a minus sign
  when negative (the form JavaScript prints below \<open>10^21\<close>, which covers every
  value of \<open>Date.now()\<close>).
\<close>

definition digit :: "nat \<Rightarrow> char" where
  "digit n = char_of (48 + n)"

function toString_nat :: "nat \<Rightarrow> string" where
  "toString_nat n = (if n < 10 then [digit n] else toString_nat (n div 10) @ [digit (n mod 10)])"
  by pat_completeness auto
termination
  by (relation "measure (\<lambda>n. n)") auto

declare toString_nat.simps [simp del]

definition toString :: "int \<Rightarrow> string" where
  "toString i = (if i < 0 then CHR ''-'' # toString_nat (nat (- i)) else toString_nat (nat i))"

text \<open>\<open>resetForm()\<close>\<close>

definition resetForm :: "app \<Rightarrow> app" where
  "resetForm s = s\<lparr>name := [], priority := ''Medium''\<rparr>"

text \<open>
  \<open>addTask()\<close>. \<open>now_id\<close> and \<open>now_created\<close> are the values of the two calls of
  \<open>Date.now()\<close>, in the order of the object literal. An empty string is falsy
  (\<open>!name\<close>); the failure is reported by \<open>setError\<close> before the handler returns.
  \<open>Keyboard.dismiss()\<close> touches no state of the component.
\<close>

definition addTask :: "int \<Rightarrow> int \<Rightarrow> app \<Rightarrow> app" where
  "addTask now_id now_created s =
     (if name s = [] \<or> trim (name s) = []
      then s\<lparr>error := ''Please enter a task name''\<rparr>
      else let newTask = \<lparr>id_t = toString now_id, name_t = trim (name s),
                            priority_t = priority s, done_t = False,
                            createdAt_t = now_created\<rparr>
           in (resetForm (s\<lparr>tasks := newTask # tasks s\<rparr>))\<lparr>modalVisible := False, error := []\<rparr>)"

text \<open>\<open>toggleDone(id)\<close>\<close>

definition toggleDone :: "string \<Rightarrow> app \<Rightarrow> app" where
  "toggleDone ident s =
     s\<lparr>tasks := map (\<lambda>t. if id_t t = ident then t\<lparr>done_t := \<not> done_t t\<rparr> else t) (tasks s),
       selectedTask := (case selectedTask s of
                          None \<Rightarrow> None
                        | Some sel \<Rightarrow> if id_t sel = ident then None else Some sel)\<rparr>"

text \<open>
  \<open>deleteTask(id)\<close> opens an alert with two buttons; only the \<open>onPress\<close> of "Delete"
  changes the list.
\<close>

datatype alert_button = Cancel | Delete

definition deleteTask :: "string \<Rightarrow> alert_button \<Rightarrow> app \<Rightarrow> app" where
  "deleteTask ident pressed s =
     (case pressed of
        Cancel \<Rightarrow> s
      | Delete \<Rightarrow> s\<lparr>tasks := filter (\<lambda>t. id_t t \<noteq> ident) (tasks s)\<rparr>)"

text \<open>
  The store's \<open>add(name, priority)\<close>: the form is filled in and the Add button pressed.
  A run of such calls, each with its two clock readings.
\<close>

definition store_add :: "string \<times> string \<times> int \<times> int \<Rightarrow> app \<Rightarrow> app" where
  "store_add call s =
     (case call of (n, p, now_id, now_created) \<Rightarrow>
        addTask now_id now_created (s\<lparr>name := n, priority := p\<rparr>))"

fun store_adds :: "(string \<times> string \<times> int \<times> int) list \<Rightarrow> app \<Rightarrow> app" where
  "store_adds [] s = s"
| "store_adds (call # calls) s = store_adds calls (store_add call s)"

subsection \<open>The roll\<close>

text \<open>
  \<open>clearInterval(id)\<close> and \<open>clearTimeout(id)\<close> take the timer out of the table; a
  stale or unknown id is ignored. \<open>if (ref.current) clear...(ref.current)\<close> tests
  truthiness: \<open>null\<close> and \<open>0\<close> are skipped.
\<close>

definition clearTimer :: "nat \<Rightarrow> app \<Rightarrow> app" where
  "clearTimer i s = s\<lparr>timers := (timers s)(i := None)\<rparr>"

definition clear_ref :: "nat option \<Rightarrow> app \<Rightarrow> app" where
  "clear_ref r s = (case r of None \<Rightarrow> s | Some i \<Rightarrow> if i \<noteq> 0 then clearTimer i s else s)"

text \<open>\<open>setInterval\<close>/\<open>setTimeout\<close>: a fresh id, the callback entered in the table.\<close>

definition setTimer :: "timer \<Rightarrow> app \<Rightarrow> nat \<times> app" where
  "setTimer cb s =
     (nextTimer s, s\<lparr>timers := (timers s)(nextTimer s \<mapsto> cb), nextTimer := Suc (nextTimer s)\<rparr>)"

text \<open>\<open>rollDice()\<close>\<close>

definition rollDice :: "app \<Rightarrow> app" where
  "rollDice s =
     (let s1 = s\<lparr>selectedTask := None\<rparr>;
          available = filter (\<lambda>t. \<not> done_t t) (tasks s)
      in if available = []
         then s1\<lparr>selectedTask := None, error := ''No incomplete tasks to pick from. Add some!''\<rparr>
         else let s2 = s1\<lparr>error := [], rolling := True\<rparr>;
                  s3 = clear_ref (intervalRef s2) s2;
                  s4 = clear_ref (timeoutRef s3) s3;
                  (i, s5) = setTimer (Interval available) s4;
                  s6 = s5\<lparr>intervalRef := Some i\<rparr>;
                  (j, s7) = setTimer (Timeout available) s6
              in s7\<lparr>timeoutRef := Some j\<rparr>)"

text \<open>
  The interval callback: \<open>setTempSelected(available[Math.floor(Math.random() * available.length)])\<close>,
  with \<open>k\<close> the index drawn.
\<close>

definition interval_callback :: "task list \<Rightarrow> nat \<Rightarrow> app \<Rightarrow> app" where
  "interval_callback available k s =
     s\<lparr>tempSelected := (if k < length available then Some (available ! k) else None)\<rparr>"

text \<open>The timeout callback, the settle point of the roll; \<open>k\<close> is the draw of the pick.\<close>

definition timeout_callback :: "task list \<Rightarrow> nat \<Rightarrow> app \<Rightarrow> app" where
  "timeout_callback available k s =
     (let s1 = clear_ref (intervalRef s) s;
          final = pickWeightedTask available k
      in s1\<lparr>selectedTask := final, tempSelected := None, rolling := False\<rparr>)"

text \<open>
  The event loop runs the callback of pending timer \<open>i\<close>. A timeout leaves the table
  when it fires, an interval stays; a timer that was cleared never fires.
\<close>

definition fire :: "nat \<Rightarrow> nat \<Rightarrow> app \<Rightarrow> app" where
  "fire i k s =
     (case timers s i of
        None \<Rightarrow> s
      | Some (Interval available) \<Rightarrow> interval_callback available k s
      | Some (Timeout available) \<Rightarrow> timeout_callback available k (clearTimer i s))"

subsection \<open>Persistence\<close>

text \<open>
  The value \<open>JSON.parse\<close> returns, as far as \<open>loadTasks\<close> looks at it: an array, or
  something else (of which only the kind matters; a number is kept as an integer).
  The elements of an array are task objects; arrays of other values are outside
  this model.
\<close>

datatype json =
  JNull | JBool bool | JNumber int | JString string
  | JObject "(string \<times> json) list" | JArray "task list"

text \<open>
  \<open>AsyncStorage\<close>: the stored pairs, whether \<open>getItem\<close>/\<open>setItem\<close> are functions at all
  (the \<open>typeof\<close> guards of the wrappers), and whether a call rejects.
\<close>

record storage =
  items :: "string \<Rightarrow> string option"
  getItem_is_function :: bool
  setItem_is_function :: bool
  getItem_rejects :: bool
  setItem_rejects :: bool

definition STORAGE_KEY :: string where
  "STORAGE_KEY = ''@dice_todo_tasks_v1''"

text \<open>\<open>safeGetItem(key)\<close>: the value, or \<open>null\<close> when the call is impossible or rejects.\<close>

definition safeGetItem :: "storage \<Rightarrow> string \<Rightarrow> string option" where
  "safeGetItem st key =
     (if getItem_is_function st
      then (if getItem_rejects st then None else items st key)
      else None)"

text \<open>\<open>safeSetItem(key, value)\<close>: a rejected write is logged and dropped.\<close>

definition safeSetItem :: "storage \<Rightarrow> string \<Rightarrow> string \<Rightarrow> storage" where
  "safeSetItem st key v =
     (if setItem_is_function st
      then (if setItem_rejects st then st else st\<lparr>items := (items st)(key \<mapsto> v)\<rparr>)
      else st)"

text \<open>
  \<open>loadTasks()\<close>, with \<open>JSON.parse\<close> as the argument \<open>parse\<close> (\<open>None\<close> when it throws a
  \<open>SyntaxError\<close>, which the \<open>catch\<close> absorbs). \<open>if (raw)\<close> skips \<open>null\<close> and the empty
  string. The handler has no other exit: every path ends in a state.
\<close>

definition loadTasks :: "(string \<Rightarrow> json option) \<Rightarrow> storage \<Rightarrow> app \<Rightarrow> app" where
  "loadTasks parse st s =
     (case safeGetItem st STORAGE_KEY of
        None \<Rightarrow> s
      | Some raw \<Rightarrow>
          if raw = [] then s
          else (case parse raw of
                  None \<Rightarrow> s
                | Some parsed \<Rightarrow>
                    (case parsed of JArray ts \<Rightarrow> s\<lparr>tasks := ts\<rparr> | _ \<Rightarrow> s)))"

text \<open>\<open>saveTasks()\<close>, with \<open>JSON.stringify\<close> as the argument \<open>stringify\<close>.\<close>

definition saveTasks :: "(task list \<Rightarrow> string) \<Rightarrow> app \<Rightarrow> storage \<Rightarrow> storage" where
  "saveTasks stringify s st = safeSetItem st STORAGE_KEY (stringify (tasks s))"

text \<open>The fields by which a stored task is compared with a loaded one.\<close>

definition stored_fields :: "task \<Rightarrow> string \<times> string \<times> string \<times> bool" where
  "stored_fields t = (id_t t, name_t t, priority_t t, done_t t)"

subsection \<open>The JSON codec of the platform\<close>

text \<open>
  \<open>saveTasks\<close> and \<open>loadTasks\<close> take the codec as an argument. The source passes
  \<open>JSON.stringify\<close> and \<open>JSON.parse\<close>; what follows models these two on the values of this
  theory, after the ECMAScript definition (\<open>QuoteJSONString\<close>,
  \<open>SerializeJSONArray\<close>, \<open>SerializeJSONObject\<close>, and the JSON grammar). Three
  restrictions come from the types above: a character is a code unit below 256; a
  number is an integer written in decimal digits (a fraction or an exponent is
  outside the model); the elements of an array are task objects.
\<close>

text \<open>
  \<open>QuoteJSONString\<close>: the quotation mark and the reverse solidus (code units 0x22 and
  0x5C) get a reverse solidus in front, the control characters backspace, form feed,
  line feed, carriage return and tab their two-character escapes, every other code
  unit below 0x20 the six characters of a \<open>u\<close> escape with lower-case hexadecimal
  digits, and everything else is copied.
\<close>

definition hex_digit :: "nat \<Rightarrow> char" where
  "hex_digit d = (if d < 10 then char_of (48 + d) else char_of (87 + d))"

definition escape_char :: "char \<Rightarrow> string" where
  "escape_char c =
     (if c = CHR 0x22 then [CHR 0x5C, CHR 0x22]
      else if c = CHR 0x5C then [CHR 0x5C, CHR 0x5C]
      else if c = CHR 0x08 then [CHR 0x5C, CHR ''b'']
      else if c = CHR 0x0C then [CHR 0x5C, CHR ''f'']
      else if c = CHR 0x0A then [CHR 0x5C, CHR ''n'']
      else if c = CHR 0x0D then [CHR 0x5C, CHR ''r'']
      else if c = CHR 0x09 then [CHR 0x5C, CHR ''t'']
      else if (of_char c :: nat) < 32
      then [CHR 0x5C, CHR ''u'', CHR ''0'', CHR ''0'',
            hex_digit (of_char c div 16), hex_digit (of_char c mod 16)]
      else [c])"

definition quote :: "string \<Rightarrow> string" where
  "quote s = CHR 0x22 # concat (map escape_char s) @ [CHR 0x22]"

text \<open>
  \<open>JSON.stringify(tasks)\<close> with no indentation argument: no white space; the members
  of a task in the order in which \<open>addTask\<close> creates the properties (\<open>id\<close>, \<open>name\<close>,
  \<open>priority\<close>, \<open>done\<close>, \<open>createdAt\<close>); the elements separated by commas; \<open>[]\<close> for the
  empty list.
\<close>

definition stringify_member :: "string \<Rightarrow> string \<Rightarrow> string" where
  "stringify_member k v = quote k @ '':'' @ v"

definition stringify_task :: "task \<Rightarrow> string" where
  "stringify_task t =
     ''{'' @ stringify_member ''id'' (quote (id_t t))
     @ '','' @ stringify_member ''name'' (quote (name_t t))
     @ '','' @ stringify_member ''priority'' (quote (priority_t t))
     @ '','' @ stringify_member ''done'' (if done_t t then ''true'' else ''false'')
     @ '','' @ stringify_member ''createdAt'' (toString (createdAt_t t))
     @ ''}''"

fun stringify_elements :: "task list \<Rightarrow> string" where
  "stringify_elements [] = []"
| "stringify_elements [t] = stringify_task t"
| "stringify_elements (t # ts) = stringify_task t @ '','' @ stringify_elements ts"

definition JSON_stringify :: "task list \<Rightarrow> string" where
  "JSON_stringify ts = ''['' @ stringify_elements ts @ '']''"

text \<open>
  \<open>JSON.parse\<close>, a recursive descent over the JSON grammar. White space (space, tab,
  line feed, carriage return) may stand around every token.
\<close>

definition json_ws :: "char \<Rightarrow> bool" where
  "json_ws c = (c = CHR '' '' \<or> c = CHR 0x09 \<or> c = CHR 0x0A \<or> c = CHR 0x0D)"

definition skip_ws :: "string \<Rightarrow> string" where
  "skip_ws cs = dropWhile json_ws cs"

text \<open>
  A string, read after its opening quotation mark up to the closing one: the result
  is the string and the rest of the input. An escape is one of the eight
  two-character ones or \<open>u\<close> with four hexadecimal digits (either case) of a code
  unit of the model; a raw code unit below 0x20 is a syntax error.
\<close>

definition hex_value :: "char \<Rightarrow> nat option" where
  "hex_value c =
     (let n = (of_char c :: nat)
      in if 48 \<le> n \<and> n \<le> 57 then Some (n - 48)
         else if 97 \<le> n \<and> n \<le> 102 then Some (n - 87)
         else if 65 \<le> n \<and> n \<le> 70 then Some (n - 55)
         else None)"

definition unescape :: "char \<Rightarrow> char option" where
  "unescape e =
     (if e = CHR 0x22 then Some (CHR 0x22)
      else if e = CHR 0x5C then Some (CHR 0x5C)
      else if e = CHR ''/'' then Some (CHR ''/'')
      else if e = CHR ''b'' then Some (CHR 0x08)
      else if e = CHR ''f'' then Some (CHR 0x0C)
      else if e = CHR ''n'' then Some (CHR 0x0A)
      else if e = CHR ''r'' then Some (CHR 0x0D)
      else if e = CHR ''t'' then Some (CHR 0x09)
      else None)"

definition code_unit :: "char \<Rightarrow> char \<Rightarrow> char \<Rightarrow> char \<Rightarrow> char option" where
  "code_unit a b c d =
     (case (hex_value a, hex_value b, hex_value c, hex_value d) of
        (Some x3, Some x2, Some x1, Some x0) \<Rightarrow>
          (if ((x3 * 16 + x2) * 16 + x1) * 16 + x0 < 256
           then Some (char_of (((x3 * 16 + x2) * 16 + x1) * 16 + x0))
           else None)
      | _ \<Rightarrow> None)"

fun parse_chars :: "string \<Rightarrow> (string \<times> string) option" where
  "parse_chars [] = None"
| "parse_chars (c # cs) =
     (if c = CHR 0x22 then Some ([], cs)
      else if c = CHR 0x5C then
        (case cs of
           [] \<Rightarrow> None
         | e # es \<Rightarrow>
             if e = CHR ''u'' then
               (case es of
                  a # b # c2 # d # rest \<Rightarrow>
                    (case code_unit a b c2 d of
                       None \<Rightarrow> None
                     | Some x \<Rightarrow> map_option (\<lambda>(s, r). (x # s, r)) (parse_chars rest))
                | _ \<Rightarrow> None)
             else (case unescape e of
                     None \<Rightarrow> None
                   | Some x \<Rightarrow> map_option (\<lambda>(s, r). (x # s, r)) (parse_chars es)))
      else if (of_char c :: nat) < 32 then None
      else map_option (\<lambda>(s, r). (c # s, r)) (parse_chars cs))"

text \<open>
  A number: an optional minus sign and decimal digits without a superfluous leading
  zero. A fraction or an exponent would follow here; they are outside the model and
  give \<open>None\<close>.
\<close>

definition is_digit :: "char \<Rightarrow> bool" where
  "is_digit c = (48 \<le> (of_char c :: nat) \<and> (of_char c :: nat) \<le> 57)"

definition digits_value :: "string \<Rightarrow> nat" where
  "digits_value ds = foldl (\<lambda>a c. 10 * a + (of_char c - 48)) 0 ds"

definition parse_number :: "string \<Rightarrow> (int \<times> string) option" where
  "parse_number cs =
     (let negative = (case cs of c # r \<Rightarrow> c = CHR ''-'' | [] \<Rightarrow> False);
          unsigned = (if negative then tl cs else cs);
          ds = takeWhile is_digit unsigned;
          rest = dropWhile is_digit unsigned
      in if ds = [] then None
         else if 1 < length ds \<and> take 1 ds = ''0'' then None
         else if take 1 rest = ''.'' \<or> take 1 rest = ''e'' \<or> take 1 rest = ''E'' then None
         else Some (if negative then - int (digits_value ds) else int (digits_value ds), rest))"

text \<open>
  An element of an array becomes a task when the object has the five properties
  with values of the kinds \<open>addTask\<close> gives them; of two members with the same key the
  later one counts, and other members are dropped. Any other element is outside the
  model.
\<close>

definition task_of :: "json \<Rightarrow> task option" where
  "task_of v =
     (case v of
        JObject members \<Rightarrow>
          (case map_of (rev members) ''id'' of
             Some (JString i) \<Rightarrow>
               (case map_of (rev members) ''name'' of
                  Some (JString n) \<Rightarrow>
                    (case map_of (rev members) ''priority'' of
                       Some (JString p) \<Rightarrow>
                         (case map_of (rev members) ''done'' of
                            Some (JBool d) \<Rightarrow>
                              (case map_of (rev members) ''createdAt'' of
                                 Some (JNumber c) \<Rightarrow>
                                   Some \<lparr>id_t = i, name_t = n, priority_t = p, done_t = d,
                                         createdAt_t = c\<rparr>
                               | _ \<Rightarrow> None)
                          | _ \<Rightarrow> None)
                     | _ \<Rightarrow> None)
                | _ \<Rightarrow> None)
           | _ \<Rightarrow> None)
      | _ \<Rightarrow> None)"

fun tasks_of :: "json list \<Rightarrow> task list option" where
  "tasks_of [] = Some []"
| "tasks_of (v # vs) =
     (case task_of v of
        None \<Rightarrow> None
      | Some t \<Rightarrow> map_option (\<lambda>ts. t # ts) (tasks_of vs))"

text \<open>
  A value, the elements of an array after its opening bracket, and the members of
  an object after its opening brace, each with the rest of the input. The first
  argument bounds the depth of the calls, which makes the three functions total;
  \<open>None\<close> is the \<open>SyntaxError\<close> (or an input outside the model).
\<close>

fun parse_value :: "nat \<Rightarrow> string \<Rightarrow> (json \<times> string) option"
  and parse_elements :: "nat \<Rightarrow> string \<Rightarrow> (json list \<times> string) option"
  and parse_members :: "nat \<Rightarrow> string \<Rightarrow> ((string \<times> json) list \<times> string) option"
where
  "parse_value 0 cs = None"
| "parse_value (Suc n) cs =
     (case skip_ws cs of
        [] \<Rightarrow> None
      | c # r \<Rightarrow>
          if c = CHR ''{'' then
            (case skip_ws r of
               [] \<Rightarrow> None
             | c' # r' \<Rightarrow>
                 if c' = CHR ''}'' then Some (JObject [], r')
                 else map_option (\<lambda>(members, rest). (JObject members, rest))
                        (parse_members n (c' # r')))
          else if c = CHR ''['' then
            (case skip_ws r of
               [] \<Rightarrow> None
             | c' # r' \<Rightarrow>
                 if c' = CHR '']'' then Some (JArray [], r')
                 else (case parse_elements n (c' # r') of
                         None \<Rightarrow> None
                       | Some (vs, rest) \<Rightarrow> map_option (\<lambda>ts. (JArray ts, rest)) (tasks_of vs)))
          else if c = CHR 0x22 then map_option (\<lambda>(s, rest). (JString s, rest)) (parse_chars r)
          else if take 4 (c # r) = ''true'' then Some (JBool True, drop 4 (c # r))
          else if take 5 (c # r) = ''false'' then Some (JBool False, drop 5 (c # r))
          else if take 4 (c # r) = ''null'' then Some (JNull, drop 4 (c # r))
          else map_option (\<lambda>(i, rest). (JNumber i, rest)) (parse_number (c # r)))"
| "parse_elements 0 cs = None"
| "parse_elements (Suc n) cs =
     (case parse_value n cs of
        None \<Rightarrow> None
      | Some (v, rest) \<Rightarrow>
          (case skip_ws rest of
             [] \<Rightarrow> None
           | c # r \<Rightarrow>
               if c = CHR '','' then map_option (\<lambda>(vs, rest'). (v # vs, rest')) (parse_elements n r)
               else if c = CHR '']'' then Some ([v], r)
               else None))"
| "parse_members 0 cs = None"
| "parse_members (Suc n) cs =
     (case skip_ws cs of
        [] \<Rightarrow> None
      | c # r \<Rightarrow>
          if c = CHR 0x22 then
            (case parse_chars r of
               None \<Rightarrow> None
             | Some (k, rest) \<Rightarrow>
                 (case skip_ws rest of
                    [] \<Rightarrow> None
                  | c1 # r1 \<Rightarrow>
                      if c1 = CHR '':'' then
                        (case parse_value n r1 of
                           None \<Rightarrow> None
                         | Some (v, rest2) \<Rightarrow>
                             (case skip_ws rest2 of
                                [] \<Rightarrow> None
                              | c2 # r2 \<Rightarrow>
                                  if c2 = CHR '','' then
                                    map_option (\<lambda>(members, rest3). ((k, v) # members, rest3))
                                      (parse_members n r2)
                                  else if c2 = CHR ''}'' then Some ([(k, v)], r2)
                                  else None))
                      else None))
          else None)"

declare parse_value.simps [simp del] parse_elements.simps [simp del] parse_members.simps [simp del]

text \<open>
  \<open>JSON.parse(raw)\<close>: one value, and nothing but white space after it. The depth
  given is one more than twice the length of the input. More depth never changes a
  result (\<open>parse_fuel_mono\<close> below), and on every text that \<open>JSON_stringify\<close> writes
  this depth is enough (\<open>JSON_parse_stringify\<close> below).
\<close>

definition JSON_parse :: "string \<Rightarrow> json option" where
  "JSON_parse raw =
     (case parse_value (Suc (2 * length raw)) raw of
        None \<Rightarrow> None
      | Some (v, rest) \<Rightarrow> if skip_ws rest = [] then Some v else None)"

text \<open>The members that \<open>parse_members\<close> reads from the text of a task.\<close>

definition task_members :: "task \<Rightarrow> (string \<times> json) list" where
  "task_members t =
     [(''id'', JString (id_t t)), (''name'', JString (name_t t)),
      (''priority'', JString (priority_t t)), (''done'', JBool (done_t t)),
      (''createdAt'', JNumber (createdAt_t t))]"

text \<open>What may follow the digits of a number that \<open>parse_number\<close> has to stop at.\<close>

definition ends_number :: "string \<Rightarrow> bool" where
  "ends_number r = (case r of [] \<Rightarrow> True
                     | c # _ \<Rightarrow> \<not> is_digit c \<and> c \<noteq> CHR ''.'' \<and> c \<noteq> CHR ''e'' \<and> c \<noteq> CHR ''E'')"

subsection \<open>Events\<close>

text \<open>
  What can happen to the mounted component: the buttons that open the form, text
  typed into the name field, one of the three priority buttons
  (\<open>["High", "Medium", "Low"].map(...)\<close>), the Add and Cancel buttons of the form, the
  toggle and delete buttons of a task card, the Roll button, a pending timer coming
  due (with the index its callback draws), and the two effects that write and read
  the storage.
\<close>

datatype event =
  OpenModal
  | ChangeText string
  | PressPriority string
  | PressAdd int int
  | PressCancel
  | PressToggle string
  | PressDelete string alert_button
  | PressRoll
  | TimerFires nat nat
  | SaveEffect
  | LoadEffect

definition priority_buttons :: "string list" where
  "priority_buttons = [''High'', ''Medium'', ''Low'']"

text \<open>
  One event, on the component state and the storage. A priority button exists only
  for the three labels. The Roll button is rendered with \<open>disabled={rolling}\<close>: a
  press while \<open>rolling\<close> is set does not reach \<open>rollDice\<close>. The controls of the form
  are on screen only while the modal is visible; their handlers do not test that,
  and the model lets them run in any state.
\<close>

definition step ::
  "(string \<Rightarrow> json option) \<Rightarrow> (task list \<Rightarrow> string) \<Rightarrow> event \<Rightarrow> app \<times> storage \<Rightarrow> app \<times> storage"
where
  "step parse stringify e w =
     (case w of (s, st) \<Rightarrow>
        (case e of
           OpenModal \<Rightarrow> (s\<lparr>modalVisible := True\<rparr>, st)
         | ChangeText t \<Rightarrow> (s\<lparr>name := t\<rparr>, st)
         | PressPriority p \<Rightarrow> (if p \<in> set priority_buttons then s\<lparr>priority := p\<rparr> else s, st)
         | PressAdd now_id now_created \<Rightarrow> (addTask now_id now_created s, st)
         | PressCancel \<Rightarrow> (resetForm (s\<lparr>modalVisible := False, error := []\<rparr>), st)
         | PressToggle ident \<Rightarrow> (toggleDone ident s, st)
         | PressDelete ident pressed \<Rightarrow> (deleteTask ident pressed s, st)
         | PressRoll \<Rightarrow> (if rolling s then s else rollDice s, st)
         | TimerFires i k \<Rightarrow> (fire i k s, st)
         | SaveEffect \<Rightarrow> (s, saveTasks stringify s st)
         | LoadEffect \<Rightarrow> (loadTasks parse st s, st)))"

fun run ::
  "(string \<Rightarrow> json option) \<Rightarrow> (task list \<Rightarrow> string) \<Rightarrow> event list \<Rightarrow> app \<times> storage \<Rightarrow> app \<times> storage"
where
  "run parse stringify [] w = w"
| "run parse stringify (e # es) w = run parse stringify es (step parse stringify e w)"

subsection \<open>Predicates of the properties\<close>

text \<open>The clock values read for the ids by the presses of Add in a sequence of events.\<close>

fun add_clocks :: "event list \<Rightarrow> int list" where
  "add_clocks [] = []"
| "add_clocks (PressAdd now_id now_created # es) = now_id # add_clocks es"
| "add_clocks (e # es) = add_clocks es"

text \<open>
  The storage holds nothing that a load would turn into a task with another
  priority: \<open>loadTasks\<close>, run on the freshly mounted component, leaves only the three
  labels in the list.
\<close>

definition payload_enumerated :: "(string \<Rightarrow> json option) \<Rightarrow> storage \<Rightarrow> bool" where
  "payload_enumerated parse st =
     list_all (\<lambda>t. priority_t t \<in> set priority_buttons) (tasks (loadTasks parse st initial))"

text \<open>
  The state of the store and of the storage that the operations keep: every task in
  the list and the priority selected in the form are among the three labels; so is
  whatever a load would read; and the payload under the key is the one the storage
  held at first (\<open>st0\<close>) or the serialization of a list with no other priority.
\<close>

definition enumerated_world ::
  "(string \<Rightarrow> json option) \<Rightarrow> (task list \<Rightarrow> string) \<Rightarrow> storage \<Rightarrow> app \<times> storage \<Rightarrow> bool"
where
  "enumerated_world parse stringify st0 w =
     (list_all (\<lambda>t. priority_t t \<in> set priority_buttons) (tasks (fst w))
      \<and> priority (fst w) \<in> set priority_buttons
      \<and> payload_enumerated parse (snd w)
      \<and> (items (snd w) STORAGE_KEY = items st0 STORAGE_KEY
         \<or> (\<exists>ts. list_all (\<lambda>t. priority_t t \<in> set priority_buttons) ts
                \<and> items (snd w) STORAGE_KEY = Some (stringify ts))))"

text \<open>
  The pending timers belong to one roll. Timer ids are given out from 1 on, and
  only by \<open>rollDice\<close>, which takes two at a time: an odd id \<open>n\<close> for its interval and
  \<open>n + 1\<close> for its timeout. Every pending interval is the one \<open>intervalRef\<close> points
  to and every pending timeout the one \<open>timeoutRef\<close> points to; the two refs hold
  such a pair, set by one call of \<open>rollDice\<close>; and when \<open>rolling\<close> is off, no timer is
  pending.
\<close>

definition timers_of_one_roll :: "app \<Rightarrow> bool" where
  "timers_of_one_roll s =
     (odd (nextTimer s)
      \<and> ((intervalRef s = None \<and> timeoutRef s = None)
         \<or> (\<exists>n. odd n \<and> intervalRef s = Some n \<and> timeoutRef s = Some (Suc n)))
      \<and> (\<forall>i cb. timers s i = Some cb \<longrightarrow>
            (case cb of
               Interval available \<Rightarrow> intervalRef s = Some i
             | Timeout available \<Rightarrow> timeoutRef s = Some i))
      \<and> (\<not> rolling s \<longrightarrow> timers s = Map.empty))"

section \<open>Properties\<close>

subsection \<open>The weighted pick\<close>

lemma push_times_replicate: "push_times n x acc = acc @ replicate n x"
  by (induction n arbitrary: acc) (simp_all add: replicate_app_Cons_same)

lemma expand_concat:
  "expand pool acc = acc @ concat (map (\<lambda>t. replicate (weight t) (id_t t)) pool)"
  by (induction pool arbitrary: acc) (simp_all add: push_times_replicate)

lemma count_filter_nth:
  "length (filter (\<lambda>k. xs ! k = x) [0..<length xs]) = count_list xs x"
proof (induction xs rule: rev_induct)
  case Nil
  then show ?case by simp
next
  case (snoc y ys)
  have "filter (\<lambda>k. (ys @ [y]) ! k = x) [0..<length ys] = filter (\<lambda>k. ys ! k = x) [0..<length ys]"
    by (rule filter_cong) (simp_all add: nth_append)
  with snoc show ?case by simp
qed

lemma count_list_replicate: "count_list (replicate n y) x = (if x = y then n else 0)"
  by (induction n) auto

lemma count_expand:
  "count_list (expand pool []) x = sum_list (map (\<lambda>t. if id_t t = x then weight t else 0) pool)"
  by (induction pool) (simp_all add: expand_concat count_list_replicate)

lemma length_expand: "length (expand pool []) = sum_list (map weight pool)"
  by (induction pool) (simp_all add: expand_concat)

lemma id_in_expand: "t \<in> set pool \<Longrightarrow> id_t t \<in> set (expand pool [])"
  by (auto simp: expand_concat weight_def)

lemma sum_weight_other:
  "id_t t \<notin> id_t ` set pool \<Longrightarrow>
   sum_list (map (\<lambda>p. if id_t p = id_t t then weight p else 0) pool) = 0"
  by (induction pool) auto

lemma sum_weight_distinct:
  "distinct (map id_t pool) \<Longrightarrow> t \<in> set pool \<Longrightarrow>
   sum_list (map (\<lambda>p. if id_t p = id_t t then weight p else 0) pool) = weight t"
proof (induction pool)
  case Nil
  then show ?case by simp
next
  case (Cons p pool)
  show ?case
  proof (cases "p = t")
    case True
    with Cons.prems have "id_t t \<notin> id_t ` set pool" by simp
    with True show ?thesis by (simp add: sum_weight_other)
  next
    case False
    with Cons.prems have "t \<in> set pool" "id_t p \<noteq> id_t t" by auto
    with Cons show ?thesis by simp
  qed
qed

text \<open>\<open>find\<close> stops at the first task that carries the id.\<close>

lemma find_first_with_id:
  "id_t t \<notin> id_t ` set before \<Longrightarrow>
   List.find (\<lambda>p. id_t p = id_t t) (before @ t # after) = Some t"
  by (induction before) auto

lemma find_distinct_id:
  assumes "distinct (map id_t pool)" "t \<in> set pool"
  shows "(List.find (\<lambda>p. id_t p = i) pool = Some t) = (id_t t = i)"
proof
  assume "List.find (\<lambda>p. id_t p = i) pool = Some t"
  then show "id_t t = i" by (auto simp: find_Some_iff)
next
  assume i: "id_t t = i"
  from assms(2) obtain before after where split: "pool = before @ t # after"
    by (auto simp: in_set_conv_decomp)
  with assms(1) have "id_t t \<notin> id_t ` set before" by auto
  with split i show "List.find (\<lambda>p. id_t p = i) pool = Some t"
    using find_first_with_id by blast
qed

lemma picks_of_distinct:
  assumes "distinct (map id_t pool)" "t \<in> set pool"
  shows "length (filter (\<lambda>k. pickWeightedTask pool k = Some t) [0..<length (expand pool [])]) = weight t"
proof -
  have "filter (\<lambda>k. pickWeightedTask pool k = Some t) [0..<length (expand pool [])]
      = filter (\<lambda>k. expand pool [] ! k = id_t t) [0..<length (expand pool [])]"
    using assms by (intro filter_cong) (auto simp: pickWeightedTask_def Let_def find_distinct_id)
  then show ?thesis
    using assms by (simp only: count_filter_nth count_expand sum_weight_distinct)
qed

lemma pick_in_range_not_null:
  assumes k: "k < length (expand pool [])"
  shows "pickWeightedTask pool k \<noteq> None"
proof -
  from k have "expand pool [] ! k \<in> set (expand pool [])" by simp
  then have "expand pool [] ! k \<in> id_t ` set pool"
    by (auto simp: expand_concat)
  moreover from k have "pool \<noteq> []" by auto
  ultimately show ?thesis using k
    by (auto simp: pickWeightedTask_def Let_def find_None_iff)
qed

text \<open>
  Claim C1, as amended. For every pool whose tasks carry pairwise distinct ids, a
  uniform draw of the index into the expanded array returns a given task of the pool
  with probability its weight divided by the sum of the weights of the pool, and the
  expanded array has as many entries as that sum. (The pick looks the drawn id up
  with \<open>find\<close>, so among tasks that share an id only the first is ever returned.)
\<close>

theorem pick_probability_distinct_ids:
  assumes "distinct (map id_t pool)" "t \<in> set pool"
  shows "pick_probability pool t = of_nat (weight t) / of_nat (sum_list (map weight pool))
       \<and> length (expand pool []) = sum_list (map weight pool)"
proof -
  have "pick_probability pool t = of_nat (weight t) / of_nat (length (expand pool []))"
    by (simp only: pick_probability_def picks_of_distinct [OF assms])
  then show ?thesis by (simp only: length_expand)
qed

theorem pick_probability_distinct_ids_witness:
  "pick_probability
     [\<lparr>id_t = ''1'', name_t = ''read'', priority_t = ''Low'', done_t = False, createdAt_t = 1\<rparr>,
      \<lparr>id_t = ''2'', name_t = ''write'', priority_t = ''High'', done_t = False, createdAt_t = 2\<rparr>]
     \<lparr>id_t = ''2'', name_t = ''write'', priority_t = ''High'', done_t = False, createdAt_t = 2\<rparr>
   = 3 / 4"
  using pick_probability_distinct_ids
    [of "[\<lparr>id_t = ''1'', name_t = ''read'', priority_t = ''Low'', done_t = False, createdAt_t = 1\<rparr>,
          \<lparr>id_t = ''2'', name_t = ''write'', priority_t = ''High'', done_t = False, createdAt_t = 2\<rparr>]"
        "\<lparr>id_t = ''2'', name_t = ''write'', priority_t = ''High'', done_t = False, createdAt_t = 2\<rparr>"]
  by (simp add: weight_def)

text \<open>
  The claim as stated fails on a pool the store itself produces: two adds that read
  the same clock value give two tasks with the id \<open>5\<close>. The newer task, of weight 1,
  comes first and is returned by all four draws; the High task is never returned,
  where the claim promises it three draws out of four.
\<close>

theorem pick_probability_shared_id_counterexample:
  "tasks (store_adds [(''write'', ''High'', 5, 5), (''read'', ''Low'', 5, 6)] initial)
     = [\<lparr>id_t = ''5'', name_t = ''read'', priority_t = ''Low'', done_t = False, createdAt_t = 6\<rparr>,
        \<lparr>id_t = ''5'', name_t = ''write'', priority_t = ''High'', done_t = False, createdAt_t = 5\<rparr>]
   \<and> pick_probability
        [\<lparr>id_t = ''5'', name_t = ''read'', priority_t = ''Low'', done_t = False, createdAt_t = 6\<rparr>,
         \<lparr>id_t = ''5'', name_t = ''write'', priority_t = ''High'', done_t = False, createdAt_t = 5\<rparr>]
        \<lparr>id_t = ''5'', name_t = ''write'', priority_t = ''High'', done_t = False, createdAt_t = 5\<rparr>
      = 0
   \<and> of_nat (weight \<lparr>id_t = ''5'', name_t = ''write'', priority_t = ''High'', done_t = False, createdAt_t = 5\<rparr>)
        / of_nat (sum_list (map weight
           [\<lparr>id_t = ''5'', name_t = ''read'', priority_t = ''Low'', done_t = False, createdAt_t = 6\<rparr>,
            \<lparr>id_t = ''5'', name_t = ''write'', priority_t = ''High'', done_t = False, createdAt_t = 5\<rparr>]))
      = (3 / 4 :: rat)"
  by code_simp

text \<open>
  Claim C10, as amended. A task of the pool whose priority is neither \<open>"High"\<close> nor
  \<open>"Medium"\<close> has weight 1; no draw within the expanded array makes the pick return
  \<open>null\<close>; and the task itself is returned by some draw provided no earlier task of
  the pool carries the same id.
\<close>

theorem unrecognized_priority_weight_one:
  assumes "pool = before @ t # after"
    and "priority_t t \<noteq> ''High''" and "priority_t t \<noteq> ''Medium''"
  shows "weight t = 1
       \<and> (\<forall>k < length (expand pool []). pickWeightedTask pool k \<noteq> None)
       \<and> (id_t t \<notin> id_t ` set before \<longrightarrow>
            (\<exists>k < length (expand pool []). pickWeightedTask pool k = Some t))"
proof (intro conjI allI impI)
  show "weight t = 1" using assms by (simp add: weight_def)
next
  fix k assume "k < length (expand pool [])"
  then show "pickWeightedTask pool k \<noteq> None" by (rule pick_in_range_not_null)
next
  assume first: "id_t t \<notin> id_t ` set before"
  from assms(1) have "t \<in> set pool" by simp
  from id_in_expand [OF this] obtain k
    where k: "k < length (expand pool [])" "expand pool [] ! k = id_t t"
    by (auto simp: in_set_conv_nth)
  from first assms(1) have "List.find (\<lambda>p. id_t p = id_t t) pool = Some t"
    using find_first_with_id by blast
  with k assms(1) have "pickWeightedTask pool k = Some t"
    by (auto simp: pickWeightedTask_def Let_def)
  with k show "\<exists>k < length (expand pool []). pickWeightedTask pool k = Some t" by blast
qed

theorem unrecognized_priority_weight_one_witness:
  "weight \<lparr>id_t = ''2'', name_t = ''call'', priority_t = ''Urgent'', done_t = False, createdAt_t = 2\<rparr> = 1
   \<and> (\<exists>k < length (expand
          [\<lparr>id_t = ''1'', name_t = ''write'', priority_t = ''High'', done_t = False, createdAt_t = 1\<rparr>,
           \<lparr>id_t = ''2'', name_t = ''call'', priority_t = ''Urgent'', done_t = False, createdAt_t = 2\<rparr>] []).
        pickWeightedTask
          [\<lparr>id_t = ''1'', name_t = ''write'', priority_t = ''High'', done_t = False, createdAt_t = 1\<rparr>,
           \<lparr>id_t = ''2'', name_t = ''call'', priority_t = ''Urgent'', done_t = False, createdAt_t = 2\<rparr>] k
        = Some \<lparr>id_t = ''2'', name_t = ''call'', priority_t = ''Urgent'', done_t = False, createdAt_t = 2\<rparr>)"
proof -
  let ?a = "\<lparr>id_t = ''1'', name_t = ''write'', priority_t = ''High'', done_t = False, createdAt_t = 1\<rparr>"
  let ?b = "\<lparr>id_t = ''2'', name_t = ''call'', priority_t = ''Urgent'', done_t = False, createdAt_t = 2\<rparr>"
  have split: "[?a, ?b] = [?a] @ ?b # []" by simp
  have not_high: "priority_t ?b \<noteq> ''High''" by simp
  have not_medium: "priority_t ?b \<noteq> ''Medium''" by simp
  have first: "id_t ?b \<notin> id_t ` set [?a]" by simp
  from unrecognized_priority_weight_one [OF split not_high not_medium] first
  show ?thesis by blast
qed

text \<open>
  The claim as stated fails for a task that stands behind another task with the same
  id (here two Low tasks added at the same clock value): its id is entered once in
  the expanded array, but every draw of that id makes \<open>find\<close> return the earlier
  task, so no draw returns the task itself.
\<close>

theorem unrecognized_priority_shadowed_counterexample:
  "tasks (store_adds [(''call'', ''Low'', 5, 5), (''read'', ''Low'', 5, 6)] initial)
     = [\<lparr>id_t = ''5'', name_t = ''read'', priority_t = ''Low'', done_t = False, createdAt_t = 6\<rparr>,
        \<lparr>id_t = ''5'', name_t = ''call'', priority_t = ''Low'', done_t = False, createdAt_t = 5\<rparr>]
   \<and> length (expand
        [\<lparr>id_t = ''5'', name_t = ''read'', priority_t = ''Low'', done_t = False, createdAt_t = 6\<rparr>,
         \<lparr>id_t = ''5'', name_t = ''call'', priority_t = ''Low'', done_t = False, createdAt_t = 5\<rparr>] []) = 2
   \<and> pickWeightedTask
        [\<lparr>id_t = ''5'', name_t = ''read'', priority_t = ''Low'', done_t = False, createdAt_t = 6\<rparr>,
         \<lparr>id_t = ''5'', name_t = ''call'', priority_t = ''Low'', done_t = False, createdAt_t = 5\<rparr>] 0
      = Some \<lparr>id_t = ''5'', name_t = ''read'', priority_t = ''Low'', done_t = False, createdAt_t = 6\<rparr>
   \<and> pickWeightedTask
        [\<lparr>id_t = ''5'', name_t = ''read'', priority_t = ''Low'', done_t = False, createdAt_t = 6\<rparr>,
         \<lparr>id_t = ''5'', name_t = ''call'', priority_t = ''Low'', done_t = False, createdAt_t = 5\<rparr>] 1
      = Some \<lparr>id_t = ''5'', name_t = ''read'', priority_t = ''Low'', done_t = False, createdAt_t = 6\<rparr>
   \<and> pick_probability
        [\<lparr>id_t = ''5'', name_t = ''read'', priority_t = ''Low'', done_t = False, createdAt_t = 6\<rparr>,
         \<lparr>id_t = ''5'', name_t = ''call'', priority_t = ''Low'', done_t = False, createdAt_t = 5\<rparr>]
        \<lparr>id_t = ''5'', name_t = ''call'', priority_t = ''Low'', done_t = False, createdAt_t = 5\<rparr>
      = 0"
  by code_simp

subsection \<open>Adding and deleting\<close>

lemma trim_empty_iff: "trim n = [] \<longleftrightarrow> (\<forall>c \<in> set n. is_whitespace c)"
proof
  assume "trim n = []"
  then have all: "\<forall>c \<in> set (dropWhile is_whitespace n). is_whitespace c"
    by (simp add: trim_def dropWhile_eq_Nil_conv)
  have "dropWhile is_whitespace n = []"
  proof (rule ccontr)
    assume ne: "dropWhile is_whitespace n \<noteq> []"
    then have "\<not> is_whitespace (hd (dropWhile is_whitespace n))" by (rule hd_dropWhile)
    moreover from ne have "hd (dropWhile is_whitespace n) \<in> set (dropWhile is_whitespace n)" by simp
    ultimately show False using all by blast
  qed
  then show "\<forall>c \<in> set n. is_whitespace c" by (simp add: dropWhile_eq_Nil_conv)
next
  assume "\<forall>c \<in> set n. is_whitespace c"
  then have d: "dropWhile is_whitespace n = []" by (simp add: dropWhile_eq_Nil_conv)
  show "trim n = []" unfolding trim_def d by simp
qed

lemma trim_Nil: "trim [] = []"
  by (simp add: trim_def)

text \<open>
  Claim C3. When the name in the form is empty or consists of white space only (so
  that trimming leaves nothing), whatever the priority, \<open>addTask\<close> sets the error
  message before it returns and changes nothing else: the task list, the form and the
  rest of the state are as before.
\<close>

theorem add_blank_name_rejected:
  assumes "trim (name s) = [] \<or> (\<forall>c \<in> set (name s). is_whitespace c)"
  shows "addTask now_id now_created s = s\<lparr>error := ''Please enter a task name''\<rparr>
       \<and> tasks (addTask now_id now_created s) = tasks s
       \<and> error (addTask now_id now_created s) = ''Please enter a task name''"
  using assms by (auto simp: addTask_def trim_empty_iff)

theorem add_blank_name_rejected_witness:
  "tasks (addTask 7 7 (initial\<lparr>name := ''   '', priority := ''Low''\<rparr>)) = []
   \<and> error (addTask 7 7 (initial\<lparr>name := ''   '', priority := ''Low''\<rparr>)) = ''Please enter a task name''
   \<and> tasks (addTask 7 7 (initial\<lparr>priority := ''High''\<rparr>)) = []
   \<and> error (addTask 7 7 (initial\<lparr>priority := ''High''\<rparr>)) = ''Please enter a task name''"
proof -
  have blank: "trim (name (initial\<lparr>name := ''   '', priority := ''Low''\<rparr>)) = []
             \<or> (\<forall>c \<in> set (name (initial\<lparr>name := ''   '', priority := ''Low''\<rparr>)). is_whitespace c)"
    by (simp add: is_whitespace_def)
  have empty: "trim (name (initial\<lparr>priority := ''High''\<rparr>)) = []
             \<or> (\<forall>c \<in> set (name (initial\<lparr>priority := ''High''\<rparr>)). is_whitespace c)"
    by (simp add: initial_def)
  from add_blank_name_rejected [OF blank, of 7 7] add_blank_name_rejected [OF empty, of 7 7]
  show ?thesis by (simp add: initial_def)
qed

lemma filter_single_split:
  "length (filter P xs) = 1 \<Longrightarrow>
   \<exists>ys z zs. xs = ys @ z # zs \<and> P z \<and> (\<forall>y \<in> set ys. \<not> P y) \<and> (\<forall>y \<in> set zs. \<not> P y)"
proof (induction xs)
  case Nil
  then show ?case by simp
next
  case (Cons a xs)
  show ?case
  proof (cases "P a")
    case True
    with Cons.prems have "filter P xs = []" by simp
    then have "\<forall>y \<in> set xs. \<not> P y" by (simp add: filter_empty_conv)
    with True have "a # xs = [] @ a # xs \<and> P a \<and> (\<forall>y \<in> set []. \<not> P y) \<and> (\<forall>y \<in> set xs. \<not> P y)"
      by simp
    then show ?thesis by blast
  next
    case False
    with Cons.prems have "length (filter P xs) = 1" by simp
    from Cons.IH [OF this] obtain ys z zs
      where "xs = ys @ z # zs" "P z" "\<forall>y \<in> set ys. \<not> P y" "\<forall>y \<in> set zs. \<not> P y"
      by blast
    with False have "a # xs = (a # ys) @ z # zs \<and> P z \<and> (\<forall>y \<in> set (a # ys). \<not> P y) \<and> (\<forall>y \<in> set zs. \<not> P y)"
      by simp
    then show ?thesis by blast
  qed
qed

text \<open>
  Claim C7. When exactly one task of the list has the id \<open>x\<close>, the confirmed delete
  of \<open>x\<close> takes that task out and leaves the tasks before and after it as they are,
  in their order: the list is one shorter and no task with the id \<open>x\<close> is left. When
  no task has the id \<open>x\<close>, the delete leaves the whole state as it is.
\<close>

theorem delete_removes_exactly_one:
  "(length (filter (\<lambda>t. id_t t = x) (tasks s)) = 1 \<longrightarrow>
      (\<exists>before t after.
          tasks s = before @ t # after \<and> id_t t = x
        \<and> tasks (deleteTask x Delete s) = before @ after
        \<and> Suc (length (tasks (deleteTask x Delete s))) = length (tasks s)
        \<and> x \<notin> id_t ` set (tasks (deleteTask x Delete s))))
   \<and> (x \<notin> id_t ` set (tasks s) \<longrightarrow> deleteTask x Delete s = s)"
proof (intro conjI impI)
  assume "length (filter (\<lambda>t. id_t t = x) (tasks s)) = 1"
  from filter_single_split [OF this] obtain before t after
    where split: "tasks s = before @ t # after" and t: "id_t t = x"
      and rest: "\<forall>y \<in> set before. id_t y \<noteq> x" "\<forall>y \<in> set after. id_t y \<noteq> x"
    by blast
  from split t rest have del: "tasks (deleteTask x Delete s) = before @ after"
    by (simp add: deleteTask_def)
  moreover from del split have "Suc (length (tasks (deleteTask x Delete s))) = length (tasks s)"
    by simp
  moreover from del rest have "x \<notin> id_t ` set (tasks (deleteTask x Delete s))"
    by auto
  ultimately show "\<exists>before t after.
          tasks s = before @ t # after \<and> id_t t = x
        \<and> tasks (deleteTask x Delete s) = before @ after
        \<and> Suc (length (tasks (deleteTask x Delete s))) = length (tasks s)
        \<and> x \<notin> id_t ` set (tasks (deleteTask x Delete s))"
    using split t by blast
next
  assume "x \<notin> id_t ` set (tasks s)"
  then have "filter (\<lambda>t. id_t t \<noteq> x) (tasks s) = tasks s"
    by (auto simp: filter_id_conv)
  then show "deleteTask x Delete s = s" by (simp add: deleteTask_def)
qed

theorem delete_removes_exactly_one_witness:
  "Suc (length (tasks (deleteTask ''2'' Delete (initial\<lparr>tasks :=
      [\<lparr>id_t = ''3'', name_t = ''call'', priority_t = ''Low'', done_t = False, createdAt_t = 3\<rparr>,
       \<lparr>id_t = ''2'', name_t = ''read'', priority_t = ''Medium'', done_t = True, createdAt_t = 2\<rparr>,
       \<lparr>id_t = ''1'', name_t = ''write'', priority_t = ''High'', done_t = False, createdAt_t = 1\<rparr>]\<rparr>)))) = 3
   \<and> ''2'' \<notin> id_t ` set (tasks (deleteTask ''2'' Delete (initial\<lparr>tasks :=
      [\<lparr>id_t = ''3'', name_t = ''call'', priority_t = ''Low'', done_t = False, createdAt_t = 3\<rparr>,
       \<lparr>id_t = ''2'', name_t = ''read'', priority_t = ''Medium'', done_t = True, createdAt_t = 2\<rparr>,
       \<lparr>id_t = ''1'', name_t = ''write'', priority_t = ''High'', done_t = False, createdAt_t = 1\<rparr>]\<rparr>)))
   \<and> deleteTask ''9'' Delete (initial\<lparr>tasks :=
      [\<lparr>id_t = ''3'', name_t = ''call'', priority_t = ''Low'', done_t = False, createdAt_t = 3\<rparr>,
       \<lparr>id_t = ''2'', name_t = ''read'', priority_t = ''Medium'', done_t = True, createdAt_t = 2\<rparr>,
       \<lparr>id_t = ''1'', name_t = ''write'', priority_t = ''High'', done_t = False, createdAt_t = 1\<rparr>]\<rparr>)
     = initial\<lparr>tasks :=
      [\<lparr>id_t = ''3'', name_t = ''call'', priority_t = ''Low'', done_t = False, createdAt_t = 3\<rparr>,
       \<lparr>id_t = ''2'', name_t = ''read'', priority_t = ''Medium'', done_t = True, createdAt_t = 2\<rparr>,
       \<lparr>id_t = ''1'', name_t = ''write'', priority_t = ''High'', done_t = False, createdAt_t = 1\<rparr>]\<rparr>"
proof -
  let ?s = "initial\<lparr>tasks :=
      [\<lparr>id_t = ''3'', name_t = ''call'', priority_t = ''Low'', done_t = False, createdAt_t = 3\<rparr>,
       \<lparr>id_t = ''2'', name_t = ''read'', priority_t = ''Medium'', done_t = True, createdAt_t = 2\<rparr>,
       \<lparr>id_t = ''1'', name_t = ''write'', priority_t = ''High'', done_t = False, createdAt_t = 1\<rparr>]\<rparr>"
  have once: "length (filter (\<lambda>t. id_t t = ''2'') (tasks ?s)) = 1" by simp
  have absent: "''9'' \<notin> id_t ` set (tasks ?s)" by simp
  from delete_removes_exactly_one [of "''2''" ?s] once
  have "Suc (length (tasks (deleteTask ''2'' Delete ?s))) = length (tasks ?s)
      \<and> ''2'' \<notin> id_t ` set (tasks (deleteTask ''2'' Delete ?s))"
    by blast
  moreover from delete_removes_exactly_one [of "''9''" ?s] absent
  have "deleteTask ''9'' Delete ?s = ?s" by blast
  ultimately show ?thesis by simp
qed

subsection \<open>The roll\<close>

text \<open>The roll and its timers leave the list and the form alone.\<close>

lemma rollDice_tasks: "tasks (rollDice s) = tasks s \<and> priority (rollDice s) = priority s"
  by (simp add: rollDice_def Let_def setTimer_def clear_ref_def clearTimer_def split: option.splits prod.splits)

lemma fire_tasks: "tasks (fire i k s) = tasks s \<and> priority (fire i k s) = priority s"
  by (simp add: fire_def interval_callback_def timeout_callback_def clear_ref_def clearTimer_def Let_def
      split: option.splits timer.splits)

lemma pick_in_pool: "pickWeightedTask pool k = Some t \<Longrightarrow> t \<in> set pool"
  by (auto simp: pickWeightedTask_def Let_def find_Some_iff split: if_splits)

lemma fire_timeout_selected:
  "timers s j = Some (Timeout available) \<Longrightarrow>
   selectedTask (fire j k s) = pickWeightedTask available k"
  by (simp add: fire_def timeout_callback_def clear_ref_def clearTimer_def Let_def split: option.splits)

lemma rollDice_empty:
  "filter (\<lambda>t. \<not> done_t t) (tasks s) = [] \<Longrightarrow>
   rollDice s = s\<lparr>selectedTask := None, error := ''No incomplete tasks to pick from. Add some!''\<rparr>"
  by (simp add: rollDice_def)

lemma rollDice_schedules:
  assumes "filter (\<lambda>t. \<not> done_t t) (tasks s) \<noteq> []"
  shows "timeoutRef (rollDice s) = Some (Suc (nextTimer s))"
    and "timers (rollDice s) (Suc (nextTimer s)) = Some (Timeout (filter (\<lambda>t. \<not> done_t t) (tasks s)))"
    and "intervalRef (rollDice s) = Some (nextTimer s)"
    and "timers (rollDice s) (nextTimer s) = Some (Interval (filter (\<lambda>t. \<not> done_t t) (tasks s)))"
  using assms
  by (simp_all add: rollDice_def Let_def setTimer_def clear_ref_def clearTimer_def split: option.splits)

text \<open>
  Claim C4. Let \<open>available\<close> be the tasks of the list that are not done when the roll
  starts. If there is none, \<open>rollDice\<close> returns with \<open>selectedTask\<close> cleared and the
  empty-state message set, and with nothing else changed: no timer is scheduled and
  no pick is made. Otherwise it schedules the settle timer with \<open>available\<close> as its
  pool; whenever that timer fires, for every draw within the expanded array, the
  selected task is a task of the list that was not done, and if \<open>available\<close> is the
  single task \<open>x\<close>, it is \<open>x\<close>.
\<close>

theorem roll_selects_incomplete:
  assumes "available = filter (\<lambda>t. \<not> done_t t) (tasks s)"
  shows "(available = [] \<longrightarrow>
            rollDice s = s\<lparr>selectedTask := None, error := ''No incomplete tasks to pick from. Add some!''\<rparr>)
       \<and> (available \<noteq> [] \<longrightarrow>
            (\<exists>j. timeoutRef (rollDice s) = Some j \<and> timers (rollDice s) j = Some (Timeout available)))
       \<and> (\<forall>s' j k. timers s' j = Some (Timeout available) \<and> k < length (expand available []) \<longrightarrow>
            (\<exists>t. selectedTask (fire j k s') = Some t \<and> t \<in> set (tasks s) \<and> \<not> done_t t)
          \<and> (\<forall>x. available = [x] \<longrightarrow> selectedTask (fire j k s') = Some x))"
proof (intro conjI impI allI)
  assume "available = []"
  with assms show "rollDice s = s\<lparr>selectedTask := None, error := ''No incomplete tasks to pick from. Add some!''\<rparr>"
    by (simp add: rollDice_empty)
next
  assume "available \<noteq> []"
  with assms rollDice_schedules(1,2) [of s]
  show "\<exists>j. timeoutRef (rollDice s) = Some j \<and> timers (rollDice s) j = Some (Timeout available)"
    by simp
next
  fix s' :: app and j k
  assume h: "timers s' j = Some (Timeout available) \<and> k < length (expand available [])"
  then have sel: "selectedTask (fire j k s') = pickWeightedTask available k"
    by (simp add: fire_timeout_selected)
  from h obtain t where t: "pickWeightedTask available k = Some t"
    using pick_in_range_not_null [of k available] by auto
  then have "t \<in> set available" by (rule pick_in_pool)
  with assms have "t \<in> set (tasks s) \<and> \<not> done_t t" by simp
  with sel t show "\<exists>t. selectedTask (fire j k s') = Some t \<and> t \<in> set (tasks s) \<and> \<not> done_t t"
    by simp
  fix x assume "available = [x]"
  with \<open>t \<in> set available\<close> have "t = x" by simp
  with sel t show "selectedTask (fire j k s') = Some x" by simp
qed

theorem roll_selects_incomplete_witness:
  "selectedTask (fire 2 0 (rollDice (initial\<lparr>tasks :=
      [\<lparr>id_t = ''2'', name_t = ''read'', priority_t = ''Medium'', done_t = True, createdAt_t = 2\<rparr>,
       \<lparr>id_t = ''1'', name_t = ''write'', priority_t = ''High'', done_t = False, createdAt_t = 1\<rparr>]\<rparr>)))
     = Some \<lparr>id_t = ''1'', name_t = ''write'', priority_t = ''High'', done_t = False, createdAt_t = 1\<rparr>
   \<and> rollDice (initial\<lparr>tasks :=
      [\<lparr>id_t = ''2'', name_t = ''read'', priority_t = ''Medium'', done_t = True, createdAt_t = 2\<rparr>]\<rparr>)
     = initial\<lparr>tasks :=
      [\<lparr>id_t = ''2'', name_t = ''read'', priority_t = ''Medium'', done_t = True, createdAt_t = 2\<rparr>],
        selectedTask := None, error := ''No incomplete tasks to pick from. Add some!''\<rparr>"
proof -
  let ?done = "\<lparr>id_t = ''2'', name_t = ''read'', priority_t = ''Medium'', done_t = True, createdAt_t = 2\<rparr>"
  let ?x = "\<lparr>id_t = ''1'', name_t = ''write'', priority_t = ''High'', done_t = False, createdAt_t = 1\<rparr>"
  let ?s = "initial\<lparr>tasks := [?done, ?x]\<rparr>"
  let ?all_done = "initial\<lparr>tasks := [?done]\<rparr>"
  have one: "[?x] = filter (\<lambda>t. \<not> done_t t) (tasks ?s)" by simp
  have none: "[] = filter (\<lambda>t. \<not> done_t t) (tasks ?all_done)" by simp
  have pending: "timers (rollDice ?s) 2 = Some (Timeout [?x])"
    by (simp add: rollDice_def initial_def setTimer_def clear_ref_def Let_def numeral_2_eq_2)
  have draw: "0 < length (expand [?x] [])" by (simp add: expand_concat weight_def)
  from roll_selects_incomplete [OF one] pending draw
  have "selectedTask (fire 2 0 (rollDice ?s)) = Some ?x" by blast
  moreover from roll_selects_incomplete [OF none]
  have "rollDice ?all_done = ?all_done\<lparr>selectedTask := None, error := ''No incomplete tasks to pick from. Add some!''\<rparr>"
    by blast
  ultimately show ?thesis by simp
qed

subsection \<open>Timers of the roll\<close>

lemma inv_initial: "timers_of_one_roll initial"
  by (simp add: timers_of_one_roll_def initial_def)

lemma pending_cases:
  assumes "timers_of_one_roll s" "timers s i = Some cb"
  shows "\<exists>n. odd n \<and> intervalRef s = Some n \<and> timeoutRef s = Some (Suc n) \<and> (i = n \<or> i = Suc n)"
proof -
  from assms have own: "case cb of Interval available \<Rightarrow> intervalRef s = Some i
                         | Timeout available \<Rightarrow> timeoutRef s = Some i"
    by (simp add: timers_of_one_roll_def)
  from assms(1) have refs: "(intervalRef s = None \<and> timeoutRef s = None)
         \<or> (\<exists>n. odd n \<and> intervalRef s = Some n \<and> timeoutRef s = Some (Suc n))"
    by (simp add: timers_of_one_roll_def)
  from own refs show ?thesis by (cases cb) (auto elim: oddE)
qed

lemma cleared_both:
  assumes inv: "timers_of_one_roll s"
    and refs: "intervalRef s = Some n" "timeoutRef s = Some (Suc n)"
  shows "(timers s)(n := None, Suc n := None) = Map.empty"
proof
  fix i
  show "((timers s)(n := None, Suc n := None)) i = Map.empty i"
  proof (cases "timers s i")
    case None
    then show ?thesis by simp
  next
    case (Some cb)
    from pending_cases [OF inv Some] refs have "i = n \<or> i = Suc n" by auto
    then show ?thesis by auto
  qed
qed

lemma no_refs_no_timers:
  assumes inv: "timers_of_one_roll s" and refs: "intervalRef s = None"
  shows "timers s = Map.empty"
proof
  fix i
  show "timers s i = Map.empty i"
  proof (cases "timers s i")
    case None
    then show ?thesis by simp
  next
    case (Some cb)
    from pending_cases [OF inv Some] refs show ?thesis by auto
  qed
qed

lemma rollDice_cancels:
  assumes inv: "timers_of_one_roll s"
    and pool: "filter (\<lambda>t. \<not> done_t t) (tasks s) \<noteq> []"
  shows "timers (rollDice s)
           = [nextTimer s \<mapsto> Interval (filter (\<lambda>t. \<not> done_t t) (tasks s)),
              Suc (nextTimer s) \<mapsto> Timeout (filter (\<lambda>t. \<not> done_t t) (tasks s))]"
    and "intervalRef (rollDice s) = Some (nextTimer s)"
    and "timeoutRef (rollDice s) = Some (Suc (nextTimer s))"
    and "rolling (rollDice s)"
    and "nextTimer (rollDice s) = Suc (Suc (nextTimer s))"
proof -
  from inv have refs: "(intervalRef s = None \<and> timeoutRef s = None)
         \<or> (\<exists>n. odd n \<and> intervalRef s = Some n \<and> timeoutRef s = Some (Suc n))"
    by (simp add: timers_of_one_roll_def)
  then show "timers (rollDice s)
           = [nextTimer s \<mapsto> Interval (filter (\<lambda>t. \<not> done_t t) (tasks s)),
              Suc (nextTimer s) \<mapsto> Timeout (filter (\<lambda>t. \<not> done_t t) (tasks s))]"
  proof
    assume none: "intervalRef s = None \<and> timeoutRef s = None"
    with no_refs_no_timers [OF inv] have "timers s = Map.empty" by simp
    with none pool show ?thesis
      by (simp add: rollDice_def Let_def setTimer_def clear_ref_def)
  next
    assume "\<exists>n. odd n \<and> intervalRef s = Some n \<and> timeoutRef s = Some (Suc n)"
    then obtain n where n: "0 < n" "intervalRef s = Some n" "timeoutRef s = Some (Suc n)"
      by (auto elim: oddE)
    from cleared_both [OF inv n(2,3)] n pool show ?thesis
      by (simp add: rollDice_def Let_def setTimer_def clear_ref_def clearTimer_def)
  qed
  from pool show "intervalRef (rollDice s) = Some (nextTimer s)"
    "timeoutRef (rollDice s) = Some (Suc (nextTimer s))" "rolling (rollDice s)"
    "nextTimer (rollDice s) = Suc (Suc (nextTimer s))"
    by (simp_all add: rollDice_def Let_def setTimer_def clear_ref_def clearTimer_def split: option.splits)
qed

lemma rollDice_inv:
  assumes inv: "timers_of_one_roll s"
  shows "timers_of_one_roll (rollDice s)"
proof (cases "filter (\<lambda>t. \<not> done_t t) (tasks s) = []")
  case True
  with inv show ?thesis
    by (simp add: rollDice_def timers_of_one_roll_def cong: timer.case_cong)
next
  case False
  from inv have "odd (nextTimer s)" by (simp add: timers_of_one_roll_def)
  with rollDice_cancels [OF inv False] show ?thesis
    by (auto simp: timers_of_one_roll_def split: if_splits)
qed

lemma timeout_owned:
  assumes inv: "timers_of_one_roll s" and due: "timers s j = Some (Timeout available)"
  shows "timeoutRef s = Some j"
proof -
  from inv have "\<forall>i cb. timers s i = Some cb \<longrightarrow>
            (case cb of Interval available \<Rightarrow> intervalRef s = Some i
             | Timeout available \<Rightarrow> timeoutRef s = Some i)"
    by (simp add: timers_of_one_roll_def)
  from this [rule_format, OF due] show ?thesis by simp
qed

lemma settle_clears:
  assumes inv: "timers_of_one_roll s" and due: "timers s j = Some (Timeout available)"
  shows "timers (fire j k s) = Map.empty" and "\<not> rolling (fire j k s)"
    and "intervalRef (fire j k s) = intervalRef s" and "timeoutRef (fire j k s) = timeoutRef s"
    and "nextTimer (fire j k s) = nextTimer s"
proof -
  from timeout_owned [OF inv due] have j: "timeoutRef s = Some j" .
  with pending_cases [OF inv due] obtain n
    where n: "0 < n" "intervalRef s = Some n" "j = Suc n" by (auto elim: oddE)
  from cleared_both [OF inv n(2)] j n have "(timers s)(n := None, Suc n := None) = Map.empty" by simp
  then have "(timers s)(Suc n := None, n := None) = Map.empty" by (simp add: fun_upd_twist)
  with due n show "timers (fire j k s) = Map.empty"
    by (simp add: fire_def timeout_callback_def clear_ref_def clearTimer_def Let_def)
  from due show "\<not> rolling (fire j k s)"
    "intervalRef (fire j k s) = intervalRef s" "timeoutRef (fire j k s) = timeoutRef s"
    "nextTimer (fire j k s) = nextTimer s"
    by (simp_all add: fire_def timeout_callback_def clear_ref_def clearTimer_def Let_def
        split: option.splits)
qed

lemma fire_inv:
  assumes inv: "timers_of_one_roll s"
  shows "timers_of_one_roll (fire i k s)"
proof (cases "timers s i")
  case None
  with inv show ?thesis by (simp add: fire_def)
next
  case (Some cb)
  show ?thesis
  proof (cases cb)
    case (Interval available)
    with Some inv show ?thesis
      by (simp add: fire_def interval_callback_def timers_of_one_roll_def cong: timer.case_cong)
  next
    case (Timeout available)
    with Some have "timers s i = Some (Timeout available)" by simp
    from settle_clears [OF inv this, of k] inv show ?thesis
      by (simp add: timers_of_one_roll_def)
  qed
qed

lemma step_inv:
  assumes inv: "timers_of_one_roll (fst w)"
  shows "timers_of_one_roll (fst (step parse stringify e w))"
proof -
  obtain s st where w: "w = (s, st)" by (cases w)
  with inv have s: "timers_of_one_roll s" by simp
  show ?thesis
  proof (cases e)
    case PressRoll
    with w s rollDice_inv [OF s] show ?thesis by (simp add: step_def)
  next
    case (TimerFires i k)
    with w fire_inv [OF s] show ?thesis by (simp add: step_def)
  next
    case (PressDelete i b)
    with w s show ?thesis
      by (cases b) (simp_all add: step_def deleteTask_def timers_of_one_roll_def cong: timer.case_cong)
  next
    case LoadEffect
    with w s show ?thesis
      by (simp add: step_def loadTasks_def timers_of_one_roll_def cong: timer.case_cong
          split: option.splits json.splits)
  qed (use w s in \<open>simp_all add: step_def addTask_def resetForm_def toggleDone_def Let_def
        timers_of_one_roll_def cong: timer.case_cong\<close>)
qed

lemma run_inv:
  "timers_of_one_roll (fst w) \<Longrightarrow> timers_of_one_roll (fst (run parse stringify es w))"
  by (induction es arbitrary: w) (simp_all add: step_inv)

text \<open>
  Claim C9. In every state the component reaches, the pending timers belong to one
  roll: they are the interval and the timeout that the two refs point to, set by one
  call of \<open>rollDice\<close>, and none is pending when \<open>rolling\<close> is off; a press of Roll is
  either ignored (the button is disabled while rolling) or finds no timer pending.
  In any state with these properties, also with a roll in flight, a call of
  \<open>rollDice\<close> on a non-empty pool clears the timers of the earlier roll before it
  schedules its own: afterwards exactly its own two timers are pending. The only
  timeout that can come due is the one of the latest roll; when it fires it writes
  the result, and then no timer is pending. A timer that was cleared does nothing.
  So of two rolls only the later one settles.
\<close>

theorem roll_timers_of_one_roll:
  "timers_of_one_roll (fst (run parse stringify es (initial, st)))
   \<and> (step parse stringify PressRoll (run parse stringify es (initial, st))
          = run parse stringify es (initial, st)
        \<or> timers (fst (run parse stringify es (initial, st))) = Map.empty)
   \<and> (\<forall>s. timers_of_one_roll s \<and> filter (\<lambda>t. \<not> done_t t) (tasks s) \<noteq> [] \<longrightarrow>
          timers (rollDice s)
            = [nextTimer s \<mapsto> Interval (filter (\<lambda>t. \<not> done_t t) (tasks s)),
               Suc (nextTimer s) \<mapsto> Timeout (filter (\<lambda>t. \<not> done_t t) (tasks s))]
        \<and> intervalRef (rollDice s) = Some (nextTimer s)
        \<and> timeoutRef (rollDice s) = Some (Suc (nextTimer s))
        \<and> timers_of_one_roll (rollDice s))
   \<and> (\<forall>s j k available. timers_of_one_roll s \<and> timers s j = Some (Timeout available) \<longrightarrow>
          timeoutRef s = Some j \<and> timers (fire j k s) = Map.empty \<and> \<not> rolling (fire j k s))
   \<and> (\<forall>s i k. timers s i = None \<longrightarrow> fire i k s = s)"
proof (intro conjI allI impI)
  show reached: "timers_of_one_roll (fst (run parse stringify es (initial, st)))"
    by (rule run_inv) (simp add: inv_initial)
  show "step parse stringify PressRoll (run parse stringify es (initial, st))
          = run parse stringify es (initial, st)
        \<or> timers (fst (run parse stringify es (initial, st))) = Map.empty"
  proof (cases "rolling (fst (run parse stringify es (initial, st)))")
    case True
    then show ?thesis
      by (cases "run parse stringify es (initial, st)") (simp add: step_def)
  next
    case False
    with reached show ?thesis by (simp add: timers_of_one_roll_def)
  qed
next
  fix s assume h: "timers_of_one_roll s \<and> filter (\<lambda>t. \<not> done_t t) (tasks s) \<noteq> []"
  then have inv: "timers_of_one_roll s" and pool: "filter (\<lambda>t. \<not> done_t t) (tasks s) \<noteq> []"
    by simp_all
  from rollDice_cancels [OF inv pool]
  show "timers (rollDice s)
            = [nextTimer s \<mapsto> Interval (filter (\<lambda>t. \<not> done_t t) (tasks s)),
               Suc (nextTimer s) \<mapsto> Timeout (filter (\<lambda>t. \<not> done_t t) (tasks s))]"
    "intervalRef (rollDice s) = Some (nextTimer s)"
    "timeoutRef (rollDice s) = Some (Suc (nextTimer s))"
    by simp_all
  from inv show "timers_of_one_roll (rollDice s)" by (rule rollDice_inv)
next
  fix s :: app and j k available
  assume h: "timers_of_one_roll s \<and> timers s j = Some (Timeout available)"
  then have inv: "timers_of_one_roll s" and due: "timers s j = Some (Timeout available)"
    by simp_all
  from timeout_owned [OF inv due] show "timeoutRef s = Some j" .
  from settle_clears [OF inv due] show "timers (fire j k s) = Map.empty" "\<not> rolling (fire j k s)"
    by simp_all
next
  fix s :: app and i k
  assume "timers s i = None"
  then show "fire i k s = s" by (simp add: fire_def)
qed


theorem roll_timers_of_one_roll_witness:
  "timers (rollDice (rollDice (initial\<lparr>tasks :=
      [\<lparr>id_t = ''1'', name_t = ''write'', priority_t = ''High'', done_t = False, createdAt_t = 1\<rparr>]\<rparr>))) 1 = None
   \<and> timers (rollDice (rollDice (initial\<lparr>tasks :=
      [\<lparr>id_t = ''1'', name_t = ''write'', priority_t = ''High'', done_t = False, createdAt_t = 1\<rparr>]\<rparr>))) 2 = None
   \<and> timers (rollDice (rollDice (initial\<lparr>tasks :=
      [\<lparr>id_t = ''1'', name_t = ''write'', priority_t = ''High'', done_t = False, createdAt_t = 1\<rparr>]\<rparr>))) 3
      = Some (Interval [\<lparr>id_t = ''1'', name_t = ''write'', priority_t = ''High'', done_t = False, createdAt_t = 1\<rparr>])
   \<and> timers (rollDice (rollDice (initial\<lparr>tasks :=
      [\<lparr>id_t = ''1'', name_t = ''write'', priority_t = ''High'', done_t = False, createdAt_t = 1\<rparr>]\<rparr>))) 4
      = Some (Timeout [\<lparr>id_t = ''1'', name_t = ''write'', priority_t = ''High'', done_t = False, createdAt_t = 1\<rparr>])
   \<and> timers (fire 4 0 (rollDice (rollDice (initial\<lparr>tasks :=
      [\<lparr>id_t = ''1'', name_t = ''write'', priority_t = ''High'', done_t = False, createdAt_t = 1\<rparr>]\<rparr>)))) = Map.empty"
proof -
  let ?x = "\<lparr>id_t = ''1'', name_t = ''write'', priority_t = ''High'', done_t = False, createdAt_t = 1\<rparr>"
  let ?s0 = "initial\<lparr>tasks := [?x]\<rparr>"
  note facts = roll_timers_of_one_roll [of "\<lambda>raw. None" "\<lambda>ts. []" "[]"
      "\<lparr>items = Map.empty, getItem_is_function = True, setItem_is_function = True,
        getItem_rejects = False, setItem_rejects = False\<rparr>"]
  have inv0: "timers_of_one_roll ?s0"
    by (simp add: timers_of_one_roll_def initial_def)
  have pool0: "filter (\<lambda>t. \<not> done_t t) (tasks ?s0) \<noteq> []" by simp
  from facts inv0 pool0 have inv1: "timers_of_one_roll (rollDice ?s0)" by blast
  have pool1: "filter (\<lambda>t. \<not> done_t t) (tasks (rollDice ?s0)) = [?x]"
    by (simp add: rollDice_tasks)
  have next1: "nextTimer (rollDice ?s0) = 3"
    by (simp add: rollDice_def initial_def setTimer_def clear_ref_def Let_def)
  from facts inv1 pool1
  have second: "timers (rollDice (rollDice ?s0))
            = [nextTimer (rollDice ?s0) \<mapsto> Interval (filter (\<lambda>t. \<not> done_t t) (tasks (rollDice ?s0))),
               Suc (nextTimer (rollDice ?s0)) \<mapsto> Timeout (filter (\<lambda>t. \<not> done_t t) (tasks (rollDice ?s0)))]"
    and inv2: "timers_of_one_roll (rollDice (rollDice ?s0))"
    by simp_all
  from second next1 pool1
  have table: "timers (rollDice (rollDice ?s0)) = [3 \<mapsto> Interval [?x], 4 \<mapsto> Timeout [?x]]"
    by (simp add: eval_nat_numeral)
  then have due: "timers (rollDice (rollDice ?s0)) 4 = Some (Timeout [?x])" by simp
  from facts inv2 due have "timers (fire 4 0 (rollDice (rollDice ?s0))) = Map.empty" by blast
  with table show ?thesis by simp
qed

subsection \<open>Ids\<close>

lemma digit_inj: "a < 10 \<Longrightarrow> b < 10 \<Longrightarrow> digit a = digit b \<Longrightarrow> a = b"
proof -
  assume a: "a < 10" and b: "b < 10" and eq: "digit a = digit b"
  from eq have "(of_char (digit a) :: nat) = of_char (digit b)" by simp
  with a b show "a = b" by (simp add: digit_def)
qed

lemma digit_not_minus: "n < 10 \<Longrightarrow> digit n \<noteq> CHR ''-''"
proof
  assume n: "n < 10" and eq: "digit n = CHR ''-''"
  from eq have "(of_char (digit n) :: nat) = of_char CHR ''-''" by simp
  with n show False by (simp add: digit_def)
qed

lemma toString_nat_small: "n < 10 \<Longrightarrow> toString_nat n = [digit n]"
  by (simp add: toString_nat.simps [of n])

lemma toString_nat_large:
  "\<not> n < 10 \<Longrightarrow> toString_nat n = toString_nat (n div 10) @ [digit (n mod 10)]"
  by (simp add: toString_nat.simps [of n])

lemma toString_nat_not_empty: "toString_nat n \<noteq> []"
  by (cases "n < 10") (simp_all add: toString_nat_small toString_nat_large)

lemma toString_nat_no_minus: "CHR ''-'' \<notin> set (toString_nat n)"
proof (induction n rule: toString_nat.induct)
  case (1 n)
  show ?case
  proof (cases "n < 10")
    case True
    then show ?thesis using digit_not_minus [of n] by (auto simp: toString_nat_small)
  next
    case False
    have "n mod 10 < 10" by simp
    from digit_not_minus [OF this] 1 False show ?thesis
      by (auto simp: toString_nat_large)
  qed
qed

text \<open>Two numbers with the same digits are equal: compare the last digit, then the rest.\<close>

lemma toString_nat_inj: "toString_nat m = toString_nat n \<Longrightarrow> m = n"
proof (induction m arbitrary: n rule: toString_nat.induct)
  case (1 m)
  show ?case
  proof (cases "m < 10")
    case True
    have "n < 10"
    proof (rule ccontr)
      assume "\<not> n < 10"
      with True "1.prems" toString_nat_not_empty [of "n div 10"] show False
        by (simp add: toString_nat_small toString_nat_large)
    qed
    with True "1.prems" show ?thesis
      by (simp add: toString_nat_small digit_inj)
  next
    case False
    have n: "\<not> n < 10"
    proof
      assume "n < 10"
      with False "1.prems" toString_nat_not_empty [of "m div 10"] show False
        by (simp add: toString_nat_small toString_nat_large)
    qed
    with False "1.prems"
    have "toString_nat (m div 10) = toString_nat (n div 10)" "digit (m mod 10) = digit (n mod 10)"
      by (simp_all add: toString_nat_large)
    with "1.IH" [OF False] have "m div 10 = n div 10" "m mod 10 = n mod 10"
      by (auto intro: digit_inj)
    then show ?thesis by (metis div_mult_mod_eq)
  qed
qed

lemma toString_inj: "toString i = toString j \<Longrightarrow> i = j"
proof -
  assume eq: "toString i = toString j"
  consider "i < 0" "j < 0" | "i < 0" "\<not> j < 0" | "\<not> i < 0" "j < 0" | "\<not> i < 0" "\<not> j < 0"
    by blast
  then show "i = j"
  proof cases
    case 1
    with eq have "nat (- i) = nat (- j)" by (simp add: toString_def toString_nat_inj)
    with 1 show ?thesis by simp
  next
    case 2
    with eq have "CHR ''-'' \<in> set (toString_nat (nat j))"
      by (metis toString_def list.set_intros(1))
    then show ?thesis using toString_nat_no_minus by blast
  next
    case 3
    with eq have "CHR ''-'' \<in> set (toString_nat (nat i))"
      by (metis toString_def list.set_intros(1))
    then show ?thesis using toString_nat_no_minus by blast
  next
    case 4
    with eq have "nat i = nat j" by (simp add: toString_def toString_nat_inj)
    with 4 show ?thesis by simp
  qed
qed

lemma distinct_map_toString:
  "distinct (map f xs) \<Longrightarrow> distinct (map (\<lambda>x. toString (f x)) xs)"
  by (induction xs) (auto dest: toString_inj)

lemma store_add_ids:
  "map id_t (tasks (store_add (n, p, now_id, now_created) s))
     = (if trim n \<noteq> [] then toString now_id # map id_t (tasks s) else map id_t (tasks s))"
  by (auto simp: store_add_def addTask_def resetForm_def Let_def trim_Nil)

lemma store_adds_ids:
  "map id_t (tasks (store_adds calls s))
     = rev (map (\<lambda>(n, p, now_id, now_created). toString now_id)
              (filter (\<lambda>(n, p, now_id, now_created). trim n \<noteq> []) calls))
       @ map id_t (tasks s)"
proof (induction calls arbitrary: s)
  case Nil
  then show ?case by simp
next
  case (Cons call calls)
  obtain n p now_id now_created where call: "call = (n, p, now_id, now_created)"
    by (cases call) auto
  show ?case
    by (simp add: Cons.IH call store_add_ids)
qed

text \<open>What the handlers do to the ids in the list.\<close>

lemma addTask_ids:
  "map id_t (tasks (addTask a b s)) = map id_t (tasks s)
   \<or> map id_t (tasks (addTask a b s)) = toString a # map id_t (tasks s)"
  by (simp add: addTask_def resetForm_def Let_def)

lemma toggleDone_ids: "map id_t (tasks (toggleDone i s)) = map id_t (tasks s)"
  by (simp add: toggleDone_def comp_def if_distrib [of id_t] cong: if_cong)

lemma deleteTask_distinct:
  "distinct (map id_t (tasks s)) \<Longrightarrow> distinct (map id_t (tasks (deleteTask i b s)))"
  by (cases b) (simp_all add: deleteTask_def distinct_map_filter)

lemma deleteTask_subset: "set (tasks (deleteTask i b s)) \<subseteq> set (tasks s)"
  by (cases b) (simp_all add: deleteTask_def)

lemma run_distinct_ids:
  assumes "LoadEffect \<notin> set es"
    and "distinct (add_clocks es)"
    and "distinct (map id_t (tasks s))"
    and "\<forall>c \<in> set (add_clocks es). toString c \<notin> set (map id_t (tasks s))"
  shows "distinct (map id_t (tasks (fst (run parse stringify es (s, st)))))"
  using assms
proof (induction es arbitrary: s st)
  case Nil
  then show ?case by simp
next
  case (Cons e es)
  obtain s' st' where step: "step parse stringify e (s, st) = (s', st')"
    by (cases "step parse stringify e (s, st)")
  have rest: "LoadEffect \<notin> set es" "distinct (add_clocks es)"
    using Cons.prems(1,2) by (cases e; simp)+
  have clocks: "set (add_clocks es) \<subseteq> set (add_clocks (e # es))"
    by (cases e) auto
  have keep: "distinct (map id_t (tasks s'))
            \<and> (\<forall>c \<in> set (add_clocks es). toString c \<notin> set (map id_t (tasks s')))"
  proof (cases e)
    case (PressAdd a b)
    with step have s': "s' = addTask a b s" by (simp add: step_def)
    from PressAdd Cons.prems(2) have fresh: "a \<notin> set (add_clocks es)" by simp
    from PressAdd Cons.prems(4) have new: "toString a \<notin> set (map id_t (tasks s))" by simp
    from addTask_ids [of a b s] show ?thesis
    proof
      assume "map id_t (tasks (addTask a b s)) = map id_t (tasks s)"
      with s' Cons.prems(3,4) clocks show ?thesis by auto
    next
      assume added: "map id_t (tasks (addTask a b s)) = toString a # map id_t (tasks s)"
      have "\<forall>c \<in> set (add_clocks es). toString c \<noteq> toString a"
        using fresh toString_inj by blast
      with added s' new Cons.prems(3,4) clocks show ?thesis by auto
    qed
  next
    case (PressToggle i)
    with step have "s' = toggleDone i s" by (simp add: step_def)
    with Cons.prems(3,4) clocks show ?thesis by (auto simp: toggleDone_ids)
  next
    case (PressDelete i b)
    with step have s': "s' = deleteTask i b s" by (simp add: step_def)
    from deleteTask_distinct [of s i b] deleteTask_subset [of i b s] s' Cons.prems(3,4) clocks
    show ?thesis by auto
  next
    case PressRoll
    with step have "tasks s' = tasks s" by (auto simp: step_def rollDice_tasks)
    with Cons.prems(3,4) clocks show ?thesis by auto
  next
    case (TimerFires i k)
    with step have "tasks s' = tasks s" by (auto simp: step_def fire_tasks)
    with Cons.prems(3,4) clocks show ?thesis by auto
  next
    case LoadEffect
    with Cons.prems(1) show ?thesis by simp
  next
    case OpenModal
    with step have "tasks s' = tasks s" by (auto simp: step_def)
    with Cons.prems(3,4) clocks show ?thesis by auto
  next
    case (ChangeText t)
    with step have "tasks s' = tasks s" by (auto simp: step_def)
    with Cons.prems(3,4) clocks show ?thesis by auto
  next
    case (PressPriority q)
    with step have "tasks s' = tasks s" by (auto simp: step_def)
    with Cons.prems(3,4) clocks show ?thesis by auto
  next
    case PressCancel
    with step have "tasks s' = tasks s" by (auto simp: step_def resetForm_def)
    with Cons.prems(3,4) clocks show ?thesis by auto
  next
    case SaveEffect
    with step have "tasks s' = tasks s" by (auto simp: step_def)
    with Cons.prems(3,4) clocks show ?thesis by auto
  qed
  with Cons.IH [OF rest, of s' st'] step show ?case by simp
qed

text \<open>
  Claim C2, as amended. The id of a new task is the clock value \<open>Date.now()\<close> printed
  in decimal. For every sequence of add operations on the empty store in which the
  successful adds read pairwise distinct clock values, all resulting tasks have
  pairwise distinct ids. And from any store with pairwise distinct ids, through any
  sequence of events without a reload, the ids stay pairwise distinct as long as the
  clock values read by the adds are pairwise distinct and are not ids of the store
  already.
\<close>

theorem adds_distinct_clock_distinct_ids:
  "(distinct (map (\<lambda>(n, p, now_id, now_created). now_id)
               (filter (\<lambda>(n, p, now_id, now_created). trim n \<noteq> []) calls))
      \<longrightarrow> distinct (map id_t (tasks (store_adds calls initial))))
   \<and> (LoadEffect \<notin> set es \<and> distinct (add_clocks es) \<and> distinct (map id_t (tasks s))
        \<and> (\<forall>c \<in> set (add_clocks es). toString c \<notin> set (map id_t (tasks s)))
      \<longrightarrow> distinct (map id_t (tasks (fst (run parse stringify es (s, st))))))"
proof (intro conjI impI)
  let ?ok = "filter (\<lambda>(n, p, now_id, now_created). trim n \<noteq> []) calls"
  assume "distinct (map (\<lambda>(n, p, now_id, now_created). now_id) ?ok)"
  then have "distinct (map (\<lambda>call. toString ((\<lambda>(n, p, now_id, now_created). now_id) call)) ?ok)"
    by (rule distinct_map_toString)
  then have "distinct (map (\<lambda>(n, p, now_id, now_created). toString now_id) ?ok)"
    by (simp add: case_prod_unfold)
  then show "distinct (map id_t (tasks (store_adds calls initial)))"
    by (simp add: store_adds_ids initial_def)
next
  assume "LoadEffect \<notin> set es \<and> distinct (add_clocks es) \<and> distinct (map id_t (tasks s))
        \<and> (\<forall>c \<in> set (add_clocks es). toString c \<notin> set (map id_t (tasks s)))"
  then show "distinct (map id_t (tasks (fst (run parse stringify es (s, st)))))"
    by (intro run_distinct_ids) simp_all
qed

theorem adds_distinct_clock_distinct_ids_witness:
  "map id_t (tasks (store_adds
      [(''write'', ''High'', 5, 5), (''  '', ''Low'', 5, 6), (''read'', ''Low'', 7, 7)] initial))
     = [''7'', ''5'']
   \<and> distinct (map id_t (tasks (store_adds
      [(''write'', ''High'', 5, 5), (''  '', ''Low'', 5, 6), (''read'', ''Low'', 7, 7)] initial)))
   \<and> distinct (map id_t (tasks (fst (run (\<lambda>raw. None) (\<lambda>ts. ''[]'')
      [ChangeText ''write'', PressAdd 5 5, PressToggle ''5'', ChangeText ''read'', PressAdd 7 7,
       PressDelete ''5'' Delete, SaveEffect]
      (initial, \<lparr>items = Map.empty, getItem_is_function = True, setItem_is_function = True,
                 getItem_rejects = False, setItem_rejects = False\<rparr>)))))"
proof -
  let ?es = "[ChangeText ''write'', PressAdd 5 5, PressToggle ''5'', ChangeText ''read'', PressAdd 7 7,
       PressDelete ''5'' Delete, SaveEffect]"
  have calls: "distinct (map (\<lambda>(n, p, now_id, now_created). now_id)
          (filter (\<lambda>(n, p, now_id, now_created). trim n \<noteq> [])
             [(''write'', ''High'', 5 :: int, 5 :: int), (''  '', ''Low'', 5, 6), (''read'', ''Low'', 7, 7)]))"
    by code_simp
  have events: "LoadEffect \<notin> set ?es \<and> distinct (add_clocks ?es) \<and> distinct (map id_t (tasks initial))
        \<and> (\<forall>c \<in> set (add_clocks ?es). toString c \<notin> set (map id_t (tasks initial)))"
    by (simp add: initial_def)
  have ids: "map id_t (tasks (store_adds
      [(''write'', ''High'', 5, 5), (''  '', ''Low'', 5, 6), (''read'', ''Low'', 7, 7)] initial))
     = [''7'', ''5'']"
    by code_simp
  from adds_distinct_clock_distinct_ids
    [of "[(''write'', ''High'', 5, 5), (''  '', ''Low'', 5, 6), (''read'', ''Low'', 7, 7)]"
        ?es initial "\<lambda>raw. None" "\<lambda>ts. ''[]''"
        "\<lparr>items = Map.empty, getItem_is_function = True, setItem_is_function = True,
          getItem_rejects = False, setItem_rejects = False\<rparr>"]
    calls events ids
  show ?thesis by blast
qed

text \<open>
  The claim as stated fails when two successful adds read the same clock value (two
  adds within one millisecond, or a clock that was set back): both tasks get the id
  \<open>5\<close>. Nothing in \<open>addTask\<close> compares the new id with the ids in the list.
\<close>

theorem adds_same_clock_counterexample:
  "length (tasks (store_adds [(''write'', ''High'', 5, 5), (''read'', ''Low'', 5, 6)] initial)) = 2
   \<and> map id_t (tasks (store_adds [(''write'', ''High'', 5, 5), (''read'', ''Low'', 5, 6)] initial))
       = [''5'', ''5'']
   \<and> \<not> distinct (map id_t (tasks (store_adds [(''write'', ''High'', 5, 5), (''read'', ''Low'', 5, 6)] initial)))"
  by code_simp

subsection \<open>Persistence\<close>

text \<open>
  Claim C6. When the storage cannot be read (\<open>getItem\<close> is missing or rejects), holds
  nothing or the empty string under the key, or holds a payload that \<open>JSON.parse\<close>
  rejects or turns into a value that is not an array, \<open>loadTasks\<close> leaves the state
  as it is, for every parser; run on the freshly mounted component, where alone the
  source calls it, the task list is empty afterwards. The model has no failing
  outcome: every path of the handler ends in a state.
\<close>

theorem load_fails_soft: 
  assumes "\<not> getItem_is_function st \<or> getItem_rejects st
         \<or> items st STORAGE_KEY = None
         \<or> items st STORAGE_KEY = Some []
         \<or> (\<exists>raw. items st STORAGE_KEY = Some raw
               \<and> (parse raw = None \<or> (\<exists>v. parse raw = Some v \<and> (\<forall>ts. v \<noteq> JArray ts))))"
  shows "loadTasks parse st s = s \<and> tasks (loadTasks parse st initial) = []"
proof -
  have "loadTasks parse st s' = s'" for s'
    using assms
    by (auto simp: loadTasks_def safeGetItem_def split: option.splits json.splits)
  then show ?thesis by (simp add: initial_def)
qed

theorem load_fails_soft_witness:
  \<open>tasks (loadTasks (\<lambda>raw. if raw = ''{"tasks":[]}'' then Some (JObject [(''tasks'', JArray [])]) else None)
      \<lparr>items = [STORAGE_KEY \<mapsto> ''{"tasks":[]}''], getItem_is_function = True, setItem_is_function = True,
        getItem_rejects = False, setItem_rejects = False\<rparr> initial) = []
   \<and> tasks (loadTasks (\<lambda>raw. if raw = ''{"tasks":[]}'' then Some (JObject [(''tasks'', JArray [])]) else None)
      \<lparr>items = [STORAGE_KEY \<mapsto> ''[{"id":''], getItem_is_function = True, setItem_is_function = True,
        getItem_rejects = False, setItem_rejects = False\<rparr> initial) = []
   \<and> tasks (loadTasks (\<lambda>raw. if raw = ''{"tasks":[]}'' then Some (JObject [(''tasks'', JArray [])]) else None)
      \<lparr>items = Map.empty, getItem_is_function = True, setItem_is_function = True,
        getItem_rejects = True, setItem_rejects = False\<rparr> initial) = []\<close>
proof -
  let ?parse = \<open>\<lambda>raw. if raw = ''{"tasks":[]}'' then Some (JObject [(''tasks'', JArray [])]) else None\<close>
  let ?object = \<open>\<lparr>items = [STORAGE_KEY \<mapsto> ''{"tasks":[]}''], getItem_is_function = True,
        setItem_is_function = True, getItem_rejects = False, setItem_rejects = False\<rparr>\<close>
  let ?cut = \<open>\<lparr>items = [STORAGE_KEY \<mapsto> ''[{"id":''], getItem_is_function = True,
        setItem_is_function = True, getItem_rejects = False, setItem_rejects = False\<rparr>\<close>
  let ?down = \<open>\<lparr>items = Map.empty :: string \<Rightarrow> string option, getItem_is_function = True,
        setItem_is_function = True, getItem_rejects = True, setItem_rejects = False\<rparr>\<close>
  have a: \<open>\<not> getItem_is_function ?object \<or> getItem_rejects ?object
         \<or> items ?object STORAGE_KEY = None
         \<or> items ?object STORAGE_KEY = Some []
         \<or> (\<exists>raw. items ?object STORAGE_KEY = Some raw
               \<and> (?parse raw = None \<or> (\<exists>v. ?parse raw = Some v \<and> (\<forall>ts. v \<noteq> JArray ts))))\<close>
    by simp
  have b: \<open>\<not> getItem_is_function ?cut \<or> getItem_rejects ?cut
         \<or> items ?cut STORAGE_KEY = None
         \<or> items ?cut STORAGE_KEY = Some []
         \<or> (\<exists>raw. items ?cut STORAGE_KEY = Some raw
               \<and> (?parse raw = None \<or> (\<exists>v. ?parse raw = Some v \<and> (\<forall>ts. v \<noteq> JArray ts))))\<close>
    by simp
  have c: \<open>\<not> getItem_is_function ?down \<or> getItem_rejects ?down
         \<or> items ?down STORAGE_KEY = None
         \<or> items ?down STORAGE_KEY = Some []
         \<or> (\<exists>raw. items ?down STORAGE_KEY = Some raw
               \<and> (?parse raw = None \<or> (\<exists>v. ?parse raw = Some v \<and> (\<forall>ts. v \<noteq> JArray ts))))\<close>
    by simp
  from load_fails_soft [of ?object ?parse, OF a] load_fails_soft [of ?cut ?parse, OF b]
    load_fails_soft [of ?down ?parse, OF c]
  show ?thesis by blast
qed

text \<open>The codec: reading back what \<open>QuoteJSONString\<close> writes.\<close>

lemma hex_value_digit: "d < 16 \<Longrightarrow> hex_value (hex_digit d) = Some d"
  by (auto simp: hex_value_def hex_digit_def Let_def)

lemma hex_value_zero: "hex_value (CHR ''0'') = Some 0"
  by (simp add: hex_value_def)

lemma code_unit_low:
  assumes "(of_char c :: nat) < 32"
  shows "code_unit (CHR ''0'') (CHR ''0'') (hex_digit (of_char c div 16)) (hex_digit (of_char c mod 16)) = Some c"
proof -
  have a: "(of_char c :: nat) div 16 < 16" using assms by simp
  have b: "(of_char c :: nat) mod 16 < 16" by simp
  have "of_char c div 16 * 16 + of_char c mod 16 = (of_char c :: nat)" by simp
  moreover have "(of_char c :: nat) < 256" using assms by simp
  ultimately show ?thesis
    by (simp add: code_unit_def hex_value_zero hex_value_digit [OF a] hex_value_digit [OF b])
qed

lemma parse_chars_escape_char:
  "parse_chars (escape_char c @ cs) = map_option (\<lambda>(s, r). (c # s, r)) (parse_chars cs)"
proof -
  consider "c = CHR 0x22" | "c = CHR 0x5C" | "c = CHR 0x08" | "c = CHR 0x0C" | "c = CHR 0x0A"
    | "c = CHR 0x0D" | "c = CHR 0x09"
    | "c \<noteq> CHR 0x22" "c \<noteq> CHR 0x5C" "c \<noteq> CHR 0x08" "c \<noteq> CHR 0x0C" "c \<noteq> CHR 0x0A"
      "c \<noteq> CHR 0x0D" "c \<noteq> CHR 0x09" "(of_char c :: nat) < 32"
    | "c \<noteq> CHR 0x22" "c \<noteq> CHR 0x5C" "\<not> (of_char c :: nat) < 32"
    by (cases "(of_char c :: nat) < 32") auto
  then show ?thesis
  proof cases
    case 8
    then show ?thesis
      by (simp add: escape_char_def code_unit_low)
  next
    case 9
    then have "escape_char c = [c]" by (auto simp: escape_char_def)
    with 9 show ?thesis by simp
  qed (simp_all add: escape_char_def unescape_def)
qed

lemma parse_chars_escaped:
  "parse_chars (concat (map escape_char s) @ CHR 0x22 # r) = Some (s, r)"
  by (induction s) (simp_all add: parse_chars_escape_char)

text \<open>Reading back the decimal digits of \<open>toString\<close>.\<close>

lemma is_digit_digit: "n < 10 \<Longrightarrow> is_digit (digit n)"
  by (simp add: is_digit_def digit_def)

lemma toString_nat_digits: "\<forall>c \<in> set (toString_nat n). is_digit c"
proof (induction n rule: toString_nat.induct)
  case (1 n)
  show ?case
  proof (cases "n < 10")
    case True
    then show ?thesis by (simp add: toString_nat_small is_digit_digit)
  next
    case False
    with 1 show ?thesis by (simp add: toString_nat_large is_digit_digit)
  qed
qed

lemma digits_value_snoc: "digits_value (ds @ [c]) = 10 * digits_value ds + (of_char c - 48)"
  by (simp add: digits_value_def)

lemma digit_value: "n < 10 \<Longrightarrow> (of_char (digit n) :: nat) - 48 = n"
  by (simp add: digit_def)

lemma digits_value_toString_nat: "digits_value (toString_nat n) = n"
proof (induction n rule: toString_nat.induct)
  case (1 n)
  show ?case
  proof (cases "n < 10")
    case True
    then show ?thesis by (simp add: toString_nat_small digits_value_def digit_value)
  next
    case False
    with 1 show ?thesis
      by (simp add: toString_nat_large digits_value_snoc digit_value)
  qed
qed

lemma toString_nat_no_leading_zero:
  "1 < length (toString_nat n) \<Longrightarrow> take 1 (toString_nat n) \<noteq> ''0''"
proof (induction n rule: toString_nat.induct)
  case (1 n)
  show ?case
  proof (cases "n < 10")
    case True
    with "1.prems" show ?thesis by (simp add: toString_nat_small)
  next
    case False
    show ?thesis
    proof (cases "n div 10 < 10")
      case True
      from False have positive: "0 < n div 10" by simp
      have "digit (n div 10) \<noteq> CHR ''0''"
      proof
        assume "digit (n div 10) = CHR ''0''"
        then have "(of_char (digit (n div 10)) :: nat) = of_char CHR ''0''" by simp
        with True positive show False by (simp add: digit_def)
      qed
      with True False show ?thesis
        by (simp add: toString_nat_large [of n] toString_nat_small)
    next
      case high: False
      then have "1 < length (toString_nat (n div 10))"
        by (simp add: toString_nat_large [of "n div 10"] toString_nat_not_empty Suc_lessI)
      with "1.IH" [OF False] have "take 1 (toString_nat (n div 10)) \<noteq> ''0''" by simp
      moreover have "toString_nat (n div 10) \<noteq> []" by (rule toString_nat_not_empty)
      ultimately show ?thesis using False
        by (cases "toString_nat (n div 10)") (simp_all add: toString_nat_large [of n])
    qed
  qed
qed

lemma takeWhile_digits:
  "ends_number r \<Longrightarrow> takeWhile is_digit (toString_nat n @ r) = toString_nat n
                    \<and> dropWhile is_digit (toString_nat n @ r) = r"
  using toString_nat_digits [of n]
  by (cases r) (simp_all add: ends_number_def takeWhile_append2 dropWhile_append3 dropWhile_append2)

lemma parse_number_unsigned:
  assumes "ends_number r"
  shows "parse_number (toString_nat n @ r) = Some (int n, r)"
proof -
  obtain c cs where split: "toString_nat n = c # cs"
    using toString_nat_not_empty [of n] by (cases "toString_nat n") auto
  with toString_nat_no_minus [of n] have c: "c \<noteq> CHR ''-''" by auto
  from assms have rest: "\<not> (take 1 r = ''.'' \<or> take 1 r = ''e'' \<or> take 1 r = ''E'')"
    by (cases r) (auto simp: ends_number_def)
  from split c have neg: "(case toString_nat n @ r of c # r \<Rightarrow> c = CHR ''-'' | [] \<Rightarrow> False) = False"
    by simp
  show ?thesis
    unfolding parse_number_def neg Let_def using takeWhile_digits [OF assms, of n] rest
      toString_nat_no_leading_zero [of n] toString_nat_not_empty [of n]
    by (simp add: digits_value_toString_nat)
qed

lemma parse_number_toString:
  assumes "ends_number r"
  shows "parse_number (toString i @ r) = Some (i, r)"
proof (cases "i < 0")
  case False
  with parse_number_unsigned [OF assms, of "nat i"] show ?thesis
    by (simp add: toString_def)
next
  case True
  from assms have rest: "\<not> (take 1 r = ''.'' \<or> take 1 r = ''e'' \<or> take 1 r = ''E'')"
    by (cases r) (auto simp: ends_number_def)
  from True show ?thesis
    unfolding parse_number_def toString_def Let_def
    using takeWhile_digits [OF assms, of "nat (- i)"] rest
      toString_nat_no_leading_zero [of "nat (- i)"] toString_nat_not_empty [of "nat (- i)"]
    by (simp add: digits_value_toString_nat)
qed

text \<open>Reading back the values, the members, the objects and the arrays.\<close>

lemma parse_value_string: "parse_value (Suc n) (quote s @ r) = Some (JString s, r)"
  by (simp add: parse_value.simps quote_def skip_ws_def json_ws_def parse_chars_escaped)

lemma parse_value_bool:
  "parse_value (Suc n) ((if b then ''true'' else ''false'') @ r) = Some (JBool b, r)"
  by (simp add: parse_value.simps skip_ws_def json_ws_def)

lemma toString_head: "\<exists>c cs. toString i = c # cs \<and> (is_digit c \<or> c = CHR ''-'')"
proof (cases "i < 0")
  case True
  then show ?thesis by (simp add: toString_def)
next
  case False
  obtain c cs where split: "toString_nat (nat i) = c # cs"
    using toString_nat_not_empty [of "nat i"] by (cases "toString_nat (nat i)") auto
  with toString_nat_digits [of "nat i"] have "is_digit c" by simp
  with split False show ?thesis by (simp add: toString_def)
qed

lemma parse_value_number_start:
  assumes "is_digit c \<or> c = CHR ''-''"
  shows "parse_value (Suc n) (c # cs)
           = map_option (\<lambda>(i, rest). (JNumber i, rest)) (parse_number (c # cs))"
proof -
  from assms have "\<not> json_ws c" "c \<noteq> CHR ''{''" "c \<noteq> CHR ''[''" "c \<noteq> CHR 0x22"
    "c \<noteq> CHR ''t''" "c \<noteq> CHR ''f''" "c \<noteq> CHR ''n''"
    by (auto simp: is_digit_def json_ws_def)
  then show ?thesis by (simp add: parse_value.simps skip_ws_def)
qed

lemma parse_value_number:
  assumes "ends_number r"
  shows "parse_value (Suc n) (toString i @ r) = Some (JNumber i, r)"
proof -
  obtain c cs where split: "toString i = c # cs" and c: "is_digit c \<or> c = CHR ''-''"
    using toString_head [of i] by blast
  from parse_value_number_start [OF c, of n "cs @ r"] parse_number_toString [OF assms, of i]
  show ?thesis by (simp add: split)
qed

lemma ends_number_delimiter: "ends_number (CHR '','' # r)" "ends_number (CHR ''}'' # r)"
  by (simp_all add: ends_number_def is_digit_def)

lemma parse_members_more:
  assumes "parse_value n (v @ CHR '','' # r) = Some (j, CHR '','' # r)"
  shows "parse_members (Suc n) (stringify_member k v @ CHR '','' # r)
           = map_option (\<lambda>(members, rest). ((k, j) # members, rest)) (parse_members n r)"
  using assms
  by (simp add: parse_members.simps stringify_member_def quote_def skip_ws_def json_ws_def
        parse_chars_escaped)

lemma parse_members_last:
  assumes "parse_value n (v @ CHR ''}'' # r) = Some (j, CHR ''}'' # r)"
  shows "parse_members (Suc n) (stringify_member k v @ CHR ''}'' # r) = Some ([(k, j)], r)"
  using assms
  by (simp add: parse_members.simps stringify_member_def quote_def skip_ws_def json_ws_def
        parse_chars_escaped)


lemma parse_value_object:
  assumes "parse_members n (CHR 0x22 # cs) = Some (members, r)"
  shows "parse_value (Suc n) (CHR ''{'' # CHR 0x22 # cs) = Some (JObject members, r)"
  using assms by (simp add: parse_value.simps skip_ws_def json_ws_def)

lemma parse_value_empty_array: "parse_value (Suc n) (''[]'' @ r) = Some (JArray [], r)"
  by (simp add: parse_value.simps skip_ws_def json_ws_def)

lemma parse_value_array:
  assumes "parse_elements n (CHR ''{'' # cs) = Some (vs, r)" and "tasks_of vs = Some ts"
  shows "parse_value (Suc n) (CHR ''['' # CHR ''{'' # cs) = Some (JArray ts, r)"
  using assms by (simp add: parse_value.simps skip_ws_def json_ws_def)

lemma parse_elements_more:
  assumes "parse_value n (v @ CHR '','' # r) = Some (j, CHR '','' # r)"
  shows "parse_elements (Suc n) (v @ CHR '','' # r)
           = map_option (\<lambda>(vs, rest). (j # vs, rest)) (parse_elements n r)"
  using assms by (simp add: parse_elements.simps skip_ws_def json_ws_def)

lemma parse_elements_last:
  assumes "parse_value n (v @ CHR '']'' # r) = Some (j, CHR '']'' # r)"
  shows "parse_elements (Suc n) (v @ CHR '']'' # r) = Some ([j], r)"
  using assms by (simp add: parse_elements.simps skip_ws_def json_ws_def)

lemma parse_members_task:
  "parse_members (Suc (Suc (Suc (Suc (Suc (Suc n))))))
     (stringify_member ''id'' (quote (id_t t))
      @ CHR '','' # stringify_member ''name'' (quote (name_t t))
      @ CHR '','' # stringify_member ''priority'' (quote (priority_t t))
      @ CHR '','' # stringify_member ''done'' (if done_t t then ''true'' else ''false'')
      @ CHR '','' # stringify_member ''createdAt'' (toString (createdAt_t t))
      @ CHR ''}'' # r)
     = Some (task_members t, r)"
  by (simp only: parse_members_more [OF parse_value_string] parse_members_more [OF parse_value_bool]
        parse_members_last [OF parse_value_number [OF ends_number_delimiter(2)]]
        option.map prod.case task_members_def)

lemma parse_value_task:
  "parse_value (Suc (Suc (Suc (Suc (Suc (Suc (Suc n))))))) (stringify_task t @ r)
     = Some (JObject (task_members t), r)"
proof -
  let ?members = "stringify_member ''id'' (quote (id_t t))
      @ CHR '','' # stringify_member ''name'' (quote (name_t t))
      @ CHR '','' # stringify_member ''priority'' (quote (priority_t t))
      @ CHR '','' # stringify_member ''done'' (if done_t t then ''true'' else ''false'')
      @ CHR '','' # stringify_member ''createdAt'' (toString (createdAt_t t))
      @ CHR ''}'' # r"
  have shape: "stringify_task t @ r = CHR ''{'' # ?members"
    by (simp add: stringify_task_def)
  have start: "?members = CHR 0x22 # tl ?members"
    by (simp add: stringify_member_def quote_def)
  have "parse_members (Suc (Suc (Suc (Suc (Suc (Suc n)))))) (CHR 0x22 # tl ?members)
          = Some (task_members t, r)"
    using parse_members_task [of n t r] start by simp
  from parse_value_object [OF this] start show ?thesis
    unfolding shape by simp
qed

lemma parse_value_task_fuel:
  assumes "7 \<le> n"
  shows "parse_value n (stringify_task t @ r) = Some (JObject (task_members t), r)"
proof -
  from assms have "n = Suc (Suc (Suc (Suc (Suc (Suc (Suc (n - 7)))))))" by arith
  then show ?thesis using parse_value_task [of "n - 7" t r] by simp
qed

lemma task_of_task_members: "task_of (JObject (task_members t)) = Some t"
  by (simp add: task_of_def task_members_def)

lemma tasks_of_task_members: "tasks_of (map (\<lambda>t. JObject (task_members t)) ts) = Some ts"
  by (induction ts) (simp_all add: task_of_task_members)

lemma parse_elements_tasks:
  assumes "ts \<noteq> []" and "length ts + 7 \<le> n"
  shows "parse_elements n (stringify_elements ts @ CHR '']'' # r)
           = Some (map (\<lambda>t. JObject (task_members t)) ts, r)"
  using assms
proof (induction ts arbitrary: n rule: stringify_elements.induct)
  case 1
  then show ?case by simp
next
  case (2 t)
  then obtain m where n: "n = Suc m" and m: "7 \<le> m" by (cases n) auto
  from parse_elements_last [OF parse_value_task_fuel [OF m]] show ?case
    by (simp add: n)
next
  case (3 t u us)
  then obtain m where n: "n = Suc m" and m: "7 \<le> m" "length (u # us) + 7 \<le> m"
    by (cases n) auto
  from "3.IH" [OF _ m(2)]
  have rest: "parse_elements m (stringify_elements (u # us) @ CHR '']'' # r)
                = Some (map (\<lambda>t. JObject (task_members t)) (u # us), r)" by simp
  have "parse_elements (Suc m)
          (stringify_task t @ CHR '','' # stringify_elements (u # us) @ CHR '']'' # r)
          = Some (map (\<lambda>t. JObject (task_members t)) (t # u # us), r)"
    by (simp only: parse_elements_more [OF parse_value_task_fuel [OF m(1)]] rest
          option.map prod.case list.map)
  then show ?case by (simp add: n)
qed

lemma stringify_task_length: "7 \<le> length (stringify_task t)"
  by (simp add: stringify_task_def stringify_member_def quote_def)

lemma stringify_elements_length: "7 * length ts \<le> length (stringify_elements ts)"
proof (induction ts rule: stringify_elements.induct)
  case (2 t)
  then show ?case using stringify_task_length [of t] by simp
next
  case (3 t u us)
  then show ?case using stringify_task_length [of t] by simp
qed simp

lemma stringify_elements_start:
  "ts \<noteq> [] \<Longrightarrow> stringify_elements ts = CHR ''{'' # tl (stringify_elements ts)"
  by (induction ts rule: stringify_elements.induct) (simp_all add: stringify_task_def)

lemma parse_value_stringify:
  assumes "length ts + 8 \<le> n"
  shows "parse_value n (JSON_stringify ts @ r) = Some (JArray ts, r)"
proof (cases "ts = []")
  case True
  from assms obtain m where "n = Suc m" by (cases n) auto
  with True parse_value_empty_array [of m r] show ?thesis
    by (simp add: JSON_stringify_def)
next
  case False
  from assms obtain m where n: "n = Suc m" and m: "length ts + 7 \<le> m" by (cases n) auto
  let ?elements = "stringify_elements ts @ CHR '']'' # r"
  from stringify_elements_start [OF False]
  have start: "?elements = CHR ''{'' # tl ?elements"
    by (metis append_Cons list.sel(3))
  from parse_elements_tasks [OF False m, of r] start
  have "parse_elements m (CHR ''{'' # tl ?elements)
          = Some (map (\<lambda>t. JObject (task_members t)) ts, r)" by simp
  from parse_value_array [OF this tasks_of_task_members] start show ?thesis
    by (simp add: n JSON_stringify_def)
qed

lemma JSON_stringify_length: "length (JSON_stringify ts) = length (stringify_elements ts) + 2"
  by (simp add: JSON_stringify_def)

lemma JSON_stringify_not_empty: "JSON_stringify ts \<noteq> []"
  by (simp add: JSON_stringify_def)

lemma JSON_parse_stringify: "JSON_parse (JSON_stringify ts) = Some (JArray ts)"
proof (cases "ts = []")
  case True
  with parse_value_empty_array [of "2 * length (JSON_stringify ts)" "[]"] show ?thesis
    by (simp add: JSON_parse_def JSON_stringify_def skip_ws_def)
next
  case False
  then have "1 \<le> length ts" by (cases ts) simp_all
  with stringify_elements_length [of ts]
  have "length ts + 8 \<le> Suc (2 * (length (stringify_elements ts) + 2))" by arith
  then have "length ts + 8 \<le> Suc (2 * length (JSON_stringify ts))"
    by (simp only: JSON_stringify_length)
  from parse_value_stringify [OF this, of "[]"] show ?thesis
    by (simp add: JSON_parse_def skip_ws_def)
qed

text \<open>More depth never changes a result of the parser.\<close>

lemma parse_fuel_step:
  "(parse_value n cs = Some x \<longrightarrow> parse_value (Suc n) cs = Some x)
   \<and> (parse_elements n cs = Some y \<longrightarrow> parse_elements (Suc n) cs = Some y)
   \<and> (parse_members n cs = Some z \<longrightarrow> parse_members (Suc n) cs = Some z)"
proof (induction n arbitrary: cs x y z)
  case 0
  then show ?case by (simp add: parse_value.simps parse_elements.simps parse_members.simps)
next
  case (Suc n)
  from Suc.IH have iv: "parse_value n cs = Some x \<Longrightarrow> parse_value (Suc n) cs = Some x" for cs x
    by blast
  from Suc.IH have ie: "parse_elements n cs = Some y \<Longrightarrow> parse_elements (Suc n) cs = Some y" for cs y
    by blast
  from Suc.IH have im: "parse_members n cs = Some z \<Longrightarrow> parse_members (Suc n) cs = Some z" for cs z
    by blast
  have v: "parse_value (Suc (Suc n)) cs = Some x" if "parse_value (Suc n) cs = Some x" for cs x
    using that
    apply (subst (asm) parse_value.simps)
    apply (subst parse_value.simps)
    apply (auto split: list.split_asm if_split_asm option.split_asm dest!: ie im)
    done
  have e: "parse_elements (Suc (Suc n)) cs = Some y" if "parse_elements (Suc n) cs = Some y" for cs y
    using that
    apply (subst (asm) parse_elements.simps)
    apply (subst parse_elements.simps)
    apply (auto split: list.split_asm if_split_asm option.split_asm dest!: iv ie)
    done
  have m: "parse_members (Suc (Suc n)) cs = Some z" if "parse_members (Suc n) cs = Some z" for cs z
    using that
    apply (subst (asm) parse_members.simps)
    apply (subst parse_members.simps)
    apply (auto split: list.split_asm if_split_asm option.split_asm dest!: iv im)
    done
  from v e m show ?case by blast
qed

lemma parse_fuel_mono:
  assumes "parse_value n cs = Some x" and "n \<le> m"
  shows "parse_value m cs = Some x"
proof -
  have one_more: "parse_value k cs = Some x \<Longrightarrow> parse_value (Suc k) cs = Some x" for k
    using parse_fuel_step [of k cs x] by blast
  have "parse_value (n + k) cs = Some x" for k
  proof (induction k)
    case 0
    from assms(1) show ?case by simp
  next
    case (Suc k)
    from one_more [OF Suc] show ?case by simp
  qed
  from this [of "m - n"] assms(2) show ?thesis by simp
qed

text \<open>
  The parser is not only the inverse of the writer: it accepts white space, members
  in any order, duplicate and additional members, and rejects a text that breaks off
  or goes on after the value.
\<close>

lemma JSON_parse_examples:
  \<open>JSON_parse '' [ { "name" : "x", "id":"7", "done":true, "extra": {"a": null},
                   "priority":"Low","createdAt": 3, "id":"8"} ] ''
     = Some (JArray [\<lparr>id_t = ''8'', name_t = ''x'', priority_t = ''Low'', done_t = True, createdAt_t = 3\<rparr>])
   \<and> JSON_parse ''[{"id":'' = None
   \<and> JSON_parse ''[] x'' = None
   \<and> JSON_parse ''{"tasks":[]}'' = Some (JObject [(''tasks'', JArray [])])
   \<and> JSON_parse ''12'' = Some (JNumber 12)\<close>
  by code_simp

text \<open>
  Claim C5, as amended. Let the storage accept the write and the read: \<open>setItem\<close> and
  \<open>getItem\<close> are functions and neither call rejects. Then for every task list, the
  empty one included, \<open>saveTasks\<close> with \<open>JSON.stringify\<close> followed by \<open>loadTasks\<close> with
  \<open>JSON.parse\<close>, in whatever state the load runs, yields the saved list: the same
  tasks in the same order, equal in id, name, priority and done flag (and in
  \<open>createdAt\<close>). Nothing is assumed of the codec: its round trip is
  \<open>JSON_parse_stringify\<close>. (\<open>safeSetItem\<close> drops a write that the storage rejects, so
  without the condition the load returns what the storage held before the save.)
\<close>

theorem save_load_roundtrip:
  assumes "setItem_is_function st" "\<not> setItem_rejects st"
      and "getItem_is_function st" "\<not> getItem_rejects st"
  shows "tasks (loadTasks JSON_parse (saveTasks JSON_stringify s st) s0) = tasks s
         \<and> map stored_fields (tasks (loadTasks JSON_parse (saveTasks JSON_stringify s st) s0))
             = map stored_fields (tasks s)"
  using assms
  by (simp add: loadTasks_def saveTasks_def safeSetItem_def safeGetItem_def
        JSON_parse_stringify JSON_stringify_not_empty)

theorem save_load_roundtrip_witness:
  \<open>tasks (loadTasks JSON_parse
       (saveTasks JSON_stringify
          (initial\<lparr>tasks :=
             [\<lparr>id_t = ''2'', name_t = ''say "hi"'' @ [CHR 0x5C, CHR 0x0A], priority_t = ''High'',
               done_t = False, createdAt_t = 2\<rparr>,
              \<lparr>id_t = ''1'', name_t = ''write'', priority_t = ''Low'', done_t = True, createdAt_t = 1\<rparr>]\<rparr>)
          \<lparr>items = Map.empty, getItem_is_function = True, setItem_is_function = True,
            getItem_rejects = False, setItem_rejects = False\<rparr>)
       initial)
     = [\<lparr>id_t = ''2'', name_t = ''say "hi"'' @ [CHR 0x5C, CHR 0x0A], priority_t = ''High'',
         done_t = False, createdAt_t = 2\<rparr>,
        \<lparr>id_t = ''1'', name_t = ''write'', priority_t = ''Low'', done_t = True, createdAt_t = 1\<rparr>]
   \<and> items (saveTasks JSON_stringify
          (initial\<lparr>tasks :=
             [\<lparr>id_t = ''2'', name_t = ''say "hi"'' @ [CHR 0x5C, CHR 0x0A], priority_t = ''High'',
               done_t = False, createdAt_t = 2\<rparr>,
              \<lparr>id_t = ''1'', name_t = ''write'', priority_t = ''Low'', done_t = True, createdAt_t = 1\<rparr>]\<rparr>)
          \<lparr>items = Map.empty, getItem_is_function = True, setItem_is_function = True,
            getItem_rejects = False, setItem_rejects = False\<rparr>) STORAGE_KEY
     = Some (''[{"id":"2","name":"say '' @ [CHR 0x5C] @ ''"hi'' @ [CHR 0x5C] @ ''"''
             @ [CHR 0x5C, CHR 0x5C, CHR 0x5C] @ ''n","priority":"High","done":false,"createdAt":2},''
             @ ''{"id":"1","name":"write","priority":"Low","done":true,"createdAt":1}]'')
   \<and> tasks (loadTasks JSON_parse
       (saveTasks JSON_stringify initial
          \<lparr>items = [STORAGE_KEY \<mapsto> ''[{"id":"1","name":"write","priority":"Low","done":true,"createdAt":1}]''],
            getItem_is_function = True, setItem_is_function = True,
            getItem_rejects = False, setItem_rejects = False\<rparr>)
       (initial\<lparr>tasks := [\<lparr>id_t = ''1'', name_t = ''write'', priority_t = ''Low'', done_t = True,
                            createdAt_t = 1\<rparr>]\<rparr>))
     = []\<close>
proof -
  let ?two = \<open>initial\<lparr>tasks :=
             [\<lparr>id_t = ''2'', name_t = ''say "hi"'' @ [CHR 0x5C, CHR 0x0A], priority_t = ''High'',
               done_t = False, createdAt_t = 2\<rparr>,
              \<lparr>id_t = ''1'', name_t = ''write'', priority_t = ''Low'', done_t = True, createdAt_t = 1\<rparr>]\<rparr>\<close>
  let ?one = \<open>initial\<lparr>tasks := [\<lparr>id_t = ''1'', name_t = ''write'', priority_t = ''Low'', done_t = True,
                            createdAt_t = 1\<rparr>]\<rparr>\<close>
  let ?fresh = \<open>\<lparr>items = Map.empty :: string \<Rightarrow> string option, getItem_is_function = True,
            setItem_is_function = True, getItem_rejects = False, setItem_rejects = False\<rparr>\<close>
  let ?used = \<open>\<lparr>items = [STORAGE_KEY \<mapsto> ''[{"id":"1","name":"write","priority":"Low","done":true,"createdAt":1}]''],
            getItem_is_function = True, setItem_is_function = True,
            getItem_rejects = False, setItem_rejects = False\<rparr>\<close>
  have fresh: "setItem_is_function ?fresh" "\<not> setItem_rejects ?fresh"
    "getItem_is_function ?fresh" "\<not> getItem_rejects ?fresh"
    by simp_all
  have used: "setItem_is_function ?used" "\<not> setItem_rejects ?used"
    "getItem_is_function ?used" "\<not> getItem_rejects ?used"
    by simp_all
  from save_load_roundtrip [OF fresh, of ?two initial]
  have two: "tasks (loadTasks JSON_parse (saveTasks JSON_stringify ?two ?fresh) initial) = tasks ?two"
    by blast
  from save_load_roundtrip [OF used, of initial ?one]
  have none: "tasks (loadTasks JSON_parse (saveTasks JSON_stringify initial ?used) ?one) = tasks initial"
    by blast
  have written: \<open>items (saveTasks JSON_stringify ?two ?fresh) STORAGE_KEY
     = Some (''[{"id":"2","name":"say '' @ [CHR 0x5C] @ ''"hi'' @ [CHR 0x5C] @ ''"''
             @ [CHR 0x5C, CHR 0x5C, CHR 0x5C] @ ''n","priority":"High","done":false,"createdAt":2},''
             @ ''{"id":"1","name":"write","priority":"Low","done":true,"createdAt":1}]'')\<close>
    by code_simp
  from two none written show ?thesis by (simp add: initial_def)
qed

theorem save_rejected_counterexample:
  \<open>tasks (loadTasks JSON_parse
       (saveTasks JSON_stringify
          (initial\<lparr>tasks := [\<lparr>id_t = ''1'', name_t = ''write'', priority_t = ''High'', done_t = False,
                               createdAt_t = 1\<rparr>]\<rparr>)
          \<lparr>items = Map.empty, getItem_is_function = True, setItem_is_function = True,
            getItem_rejects = False, setItem_rejects = True\<rparr>)
       initial)
     = []
   \<and> map stored_fields (tasks
       (initial\<lparr>tasks := [\<lparr>id_t = ''1'', name_t = ''write'', priority_t = ''High'', done_t = False,
                            createdAt_t = 1\<rparr>]\<rparr>))
     = [(''1'', ''write'', ''High'', False)]
   \<and> map stored_fields (tasks (loadTasks JSON_parse
       (saveTasks JSON_stringify
          (initial\<lparr>tasks := [\<lparr>id_t = ''3'', name_t = ''call'', priority_t = ''Low'', done_t = False,
                               createdAt_t = 3\<rparr>]\<rparr>)
          \<lparr>items = [STORAGE_KEY \<mapsto> ''[{"id":"1","name":"write","priority":"High","done":false,"createdAt":1}]''],
            getItem_is_function = True, setItem_is_function = True,
            getItem_rejects = False, setItem_rejects = True\<rparr>)
       initial))
     = [(''1'', ''write'', ''High'', False)]\<close>
  by code_simp

subsection \<open>Priorities in the store and in the storage\<close>

lemma addTask_enumerated:
  "list_all (\<lambda>t. priority_t t \<in> set priority_buttons) (tasks s) \<Longrightarrow>
   priority s \<in> set priority_buttons \<Longrightarrow>
   list_all (\<lambda>t. priority_t t \<in> set priority_buttons) (tasks (addTask a b s))
   \<and> priority (addTask a b s) \<in> set priority_buttons"
  by (auto simp: addTask_def resetForm_def Let_def priority_buttons_def)

text \<open>A load keeps the list or installs what it would install on the fresh component.\<close>

lemma loadTasks_cases:
  "tasks (loadTasks parse st s) = tasks s
   \<or> tasks (loadTasks parse st s) = tasks (loadTasks parse st initial)"
  by (simp add: loadTasks_def split: option.splits json.splits)

lemma loadTasks_enumerated:
  assumes "list_all (\<lambda>t. priority_t t \<in> set priority_buttons) (tasks s)"
    and "payload_enumerated parse st"
  shows "list_all (\<lambda>t. priority_t t \<in> set priority_buttons) (tasks (loadTasks parse st s))
       \<and> priority (loadTasks parse st s) = priority s"
proof -
  from loadTasks_cases [of parse st s] assms
  have "list_all (\<lambda>t. priority_t t \<in> set priority_buttons) (tasks (loadTasks parse st s))"
    by (auto simp: payload_enumerated_def)
  moreover have "priority (loadTasks parse st s) = priority s"
    by (simp add: loadTasks_def split: option.splits json.splits)
  ultimately show ?thesis by simp
qed

text \<open>A save keeps the storage or puts the serialization of the list under the key.\<close>

lemma saveTasks_cases:
  "saveTasks stringify s st = st
   \<or> saveTasks stringify s st = st\<lparr>items := (items st)(STORAGE_KEY \<mapsto> stringify (tasks s))\<rparr>"
  by (simp add: saveTasks_def safeSetItem_def)

lemma saved_payload_enumerated:
  assumes codec: "\<forall>ts. list_all (\<lambda>t. priority_t t \<in> set priority_buttons) ts \<longrightarrow>
                   (case parse (stringify ts) of
                      Some (JArray ts') \<Rightarrow> list_all (\<lambda>t. priority_t t \<in> set priority_buttons) ts'
                    | _ \<Rightarrow> True)"
    and ts: "list_all (\<lambda>t. priority_t t \<in> set priority_buttons) ts"
  shows "payload_enumerated parse (st\<lparr>items := (items st)(STORAGE_KEY \<mapsto> stringify ts)\<rparr>)"
proof -
  from codec ts
  have "case parse (stringify ts) of
          Some (JArray ts') \<Rightarrow> list_all (\<lambda>t. priority_t t \<in> set priority_buttons) ts'
        | _ \<Rightarrow> True"
    by blast
  then show ?thesis
    by (auto simp: payload_enumerated_def loadTasks_def safeGetItem_def initial_def
        split: option.splits json.splits)
qed

lemma step_enumerated:
  assumes codec: "\<forall>ts. list_all (\<lambda>t. priority_t t \<in> set priority_buttons) ts \<longrightarrow>
                   (case parse (stringify ts) of
                      Some (JArray ts') \<Rightarrow> list_all (\<lambda>t. priority_t t \<in> set priority_buttons) ts'
                    | _ \<Rightarrow> True)"
    and inv: "enumerated_world parse stringify st0 w"
  shows "enumerated_world parse stringify st0 (step parse stringify e w)"
proof -
  obtain s st where w: "w = (s, st)" by (cases w)
  from inv w have ts: "list_all (\<lambda>t. priority_t t \<in> set priority_buttons) (tasks s)"
    and p: "priority s \<in> set priority_buttons"
    and payload: "payload_enumerated parse st"
    and key: "items st STORAGE_KEY = items st0 STORAGE_KEY
         \<or> (\<exists>ts. list_all (\<lambda>t. priority_t t \<in> set priority_buttons) ts
                \<and> items st STORAGE_KEY = Some (stringify ts))"
    by (simp_all add: enumerated_world_def)
  show ?thesis
  proof (cases e)
    case OpenModal
    with w ts p payload key show ?thesis by (simp add: step_def enumerated_world_def)
  next
    case (ChangeText t)
    with w ts p payload key show ?thesis by (simp add: step_def enumerated_world_def)
  next
    case (PressPriority q)
    with w ts p payload key show ?thesis by (simp add: step_def enumerated_world_def)
  next
    case (PressAdd a b)
    with w addTask_enumerated [OF ts p, of a b] payload key show ?thesis
      by (simp add: step_def enumerated_world_def)
  next
    case PressCancel
    with w ts payload key show ?thesis
      by (simp add: step_def enumerated_world_def resetForm_def priority_buttons_def)
  next
    case (PressToggle i)
    with w ts p payload key show ?thesis
      by (auto simp: step_def enumerated_world_def toggleDone_def list_all_iff)
  next
    case (PressDelete i b)
    with w ts p payload key show ?thesis
      by (cases b) (auto simp: step_def enumerated_world_def deleteTask_def list_all_iff)
  next
    case PressRoll
    with w ts p payload key show ?thesis
      by (simp add: step_def enumerated_world_def rollDice_tasks)
  next
    case (TimerFires i k)
    with w ts p payload key show ?thesis
      by (simp add: step_def enumerated_world_def fire_tasks)
  next
    case SaveEffect
    from saveTasks_cases [of stringify s st]
    have "payload_enumerated parse (saveTasks stringify s st)
        \<and> (items (saveTasks stringify s st) STORAGE_KEY = items st0 STORAGE_KEY
           \<or> (\<exists>ts. list_all (\<lambda>t. priority_t t \<in> set priority_buttons) ts
                \<and> items (saveTasks stringify s st) STORAGE_KEY = Some (stringify ts)))"
    proof
      assume "saveTasks stringify s st = st"
      with payload key show ?thesis by simp
    next
      assume saved: "saveTasks stringify s st
                       = st\<lparr>items := (items st)(STORAGE_KEY \<mapsto> stringify (tasks s))\<rparr>"
      from saved_payload_enumerated [OF codec ts, of st] saved
      have "payload_enumerated parse (saveTasks stringify s st)" by simp
      moreover from saved
      have "items (saveTasks stringify s st) STORAGE_KEY = Some (stringify (tasks s))" by simp
      ultimately show ?thesis using ts by blast
    qed
    with SaveEffect w ts p show ?thesis
      by (simp add: step_def enumerated_world_def)
  next
    case LoadEffect
    from loadTasks_enumerated [OF ts payload] LoadEffect w p payload key show ?thesis
      by (simp add: step_def enumerated_world_def)
  qed
qed

lemma run_enumerated:
  assumes codec: "\<forall>ts. list_all (\<lambda>t. priority_t t \<in> set priority_buttons) ts \<longrightarrow>
                   (case parse (stringify ts) of
                      Some (JArray ts') \<Rightarrow> list_all (\<lambda>t. priority_t t \<in> set priority_buttons) ts'
                    | _ \<Rightarrow> True)"
  shows "enumerated_world parse stringify st0 w \<Longrightarrow>
         enumerated_world parse stringify st0 (run parse stringify es w)"
proof (induction es arbitrary: w)
  case Nil
  then show ?case by simp
next
  case (Cons e es)
  from step_enumerated [OF codec Cons.prems]
  have "enumerated_world parse stringify st0 (step parse stringify e w)" .
  with Cons.IH show ?case by simp
qed

text \<open>
  Claim C8, as amended. Let the payload that the storage holds when the component
  is mounted be such that a load turns it into no task with a priority other than
  High, Medium and Low (it is absent, unreadable, not an array, or an array of tasks
  with these priorities), and let the JSON codec of the platform keep the
  priorities of such lists. Then, through every sequence of events (the form, add,
  cancel, toggle, delete, roll, timers, save, load), every task in the store has
  one of the three priorities, and the payload under the key is the one the storage
  held at first or the serialization of a list with no other priority.
  (\<open>addTask\<close> takes the priority from the form, which only the three buttons and
  \<open>resetForm\<close> set; \<open>loadTasks\<close> checks that the payload is an array, nothing else.)
\<close>

theorem store_priorities_enumerated:
  assumes start: "payload_enumerated parse st"
    and codec: "\<forall>ts. list_all (\<lambda>t. priority_t t \<in> set priority_buttons) ts \<longrightarrow>
                   (case parse (stringify ts) of
                      Some (JArray ts') \<Rightarrow> list_all (\<lambda>t. priority_t t \<in> set priority_buttons) ts'
                    | _ \<Rightarrow> True)"
  shows "list_all (\<lambda>t. priority_t t \<in> set priority_buttons)
           (tasks (fst (run parse stringify es (initial, st))))
       \<and> (items (snd (run parse stringify es (initial, st))) STORAGE_KEY = items st STORAGE_KEY
          \<or> (\<exists>ts. list_all (\<lambda>t. priority_t t \<in> set priority_buttons) ts
                \<and> items (snd (run parse stringify es (initial, st))) STORAGE_KEY = Some (stringify ts)))"
proof -
  from start have "enumerated_world parse stringify st (initial, st)"
    by (simp add: enumerated_world_def initial_def priority_buttons_def)
  from run_enumerated [OF codec this] show ?thesis
    by (simp add: enumerated_world_def)
qed

theorem store_priorities_enumerated_witness:
  \<open>map priority_t (tasks (fst (run
       (\<lambda>raw. if raw = ''[{"id":"5","name":"write","priority":"High","done":false,"createdAt":5}]''
              then Some (JArray [\<lparr>id_t = ''5'', name_t = ''write'', priority_t = ''High'', done_t = False, createdAt_t = 5\<rparr>])
              else None)
       (\<lambda>ts. if ts = [] then ''[]''
              else ''[{"id":"5","name":"write","priority":"High","done":false,"createdAt":5}]'')
       [OpenModal, ChangeText ''write'', PressPriority ''High'', PressAdd 5 5, SaveEffect, LoadEffect,
        OpenModal, PressPriority ''Urgent'', ChangeText ''call'', PressAdd 6 6]
       (initial, \<lparr>items = Map.empty, getItem_is_function = True, setItem_is_function = True,
                  getItem_rejects = False, setItem_rejects = False\<rparr>))))
     = [''Medium'', ''High'']
   \<and> list_all (\<lambda>t. priority_t t \<in> set priority_buttons) (tasks (fst (run
       (\<lambda>raw. if raw = ''[{"id":"5","name":"write","priority":"High","done":false,"createdAt":5}]''
              then Some (JArray [\<lparr>id_t = ''5'', name_t = ''write'', priority_t = ''High'', done_t = False, createdAt_t = 5\<rparr>])
              else None)
       (\<lambda>ts. if ts = [] then ''[]''
              else ''[{"id":"5","name":"write","priority":"High","done":false,"createdAt":5}]'')
       [OpenModal, ChangeText ''write'', PressPriority ''High'', PressAdd 5 5, SaveEffect, LoadEffect,
        OpenModal, PressPriority ''Urgent'', ChangeText ''call'', PressAdd 6 6]
       (initial, \<lparr>items = Map.empty, getItem_is_function = True, setItem_is_function = True,
                  getItem_rejects = False, setItem_rejects = False\<rparr>))))\<close>
proof -
  let ?parse = \<open>\<lambda>raw. if raw = ''[{"id":"5","name":"write","priority":"High","done":false,"createdAt":5}]''
              then Some (JArray [\<lparr>id_t = ''5'', name_t = ''write'', priority_t = ''High'', done_t = False, createdAt_t = 5\<rparr>])
              else None\<close>
  let ?stringify = \<open>\<lambda>ts :: task list. if ts = [] then ''[]''
              else ''[{"id":"5","name":"write","priority":"High","done":false,"createdAt":5}]''\<close>
  let ?es = \<open>[OpenModal, ChangeText ''write'', PressPriority ''High'', PressAdd 5 5, SaveEffect, LoadEffect,
        OpenModal, PressPriority ''Urgent'', ChangeText ''call'', PressAdd 6 6]\<close>
  let ?st = \<open>\<lparr>items = Map.empty :: string \<Rightarrow> string option, getItem_is_function = True,
       setItem_is_function = True, getItem_rejects = False, setItem_rejects = False\<rparr>\<close>
  have start: \<open>payload_enumerated ?parse ?st\<close>
    by (simp add: payload_enumerated_def loadTasks_def safeGetItem_def initial_def)
  have codec: \<open>\<forall>ts. list_all (\<lambda>t. priority_t t \<in> set priority_buttons) ts \<longrightarrow>
                   (case ?parse (?stringify ts) of
                      Some (JArray ts') \<Rightarrow> list_all (\<lambda>t. priority_t t \<in> set priority_buttons) ts'
                    | _ \<Rightarrow> True)\<close>
    by (simp add: priority_buttons_def)
  have run: \<open>map priority_t (tasks (fst (run ?parse ?stringify ?es (initial, ?st)))) = [''Medium'', ''High'']\<close>
    by code_simp
  from store_priorities_enumerated [OF start codec, of ?es] run
  show ?thesis by blast
qed

text \<open>
  The claim as stated fails on a storage that already holds an array with another
  priority: the load puts the task in the store as it is, and the next save writes
  it back.
\<close>

theorem load_foreign_priority_counterexample:
  \<open>map priority_t (tasks (fst (run
       (\<lambda>raw. if raw = ''[{"id":"1","name":"call","priority":"Urgent","done":false,"createdAt":1}]''
              then Some (JArray [\<lparr>id_t = ''1'', name_t = ''call'', priority_t = ''Urgent'', done_t = False, createdAt_t = 1\<rparr>])
              else None)
       (\<lambda>ts. if ts = [] then ''[]''
              else ''[{"id":"1","name":"call","priority":"Urgent","done":false,"createdAt":1}]'')
       [LoadEffect, SaveEffect]
       (initial,
        \<lparr>items = [STORAGE_KEY \<mapsto> ''[{"id":"1","name":"call","priority":"Urgent","done":false,"createdAt":1}]''],
          getItem_is_function = True, setItem_is_function = True,
          getItem_rejects = False, setItem_rejects = False\<rparr>))))
     = [''Urgent'']
   \<and> ''Urgent'' \<notin> set priority_buttons
   \<and> items (snd (run
       (\<lambda>raw. if raw = ''[{"id":"1","name":"call","priority":"Urgent","done":false,"createdAt":1}]''
              then Some (JArray [\<lparr>id_t = ''1'', name_t = ''call'', priority_t = ''Urgent'', done_t = False, createdAt_t = 1\<rparr>])
              else None)
       (\<lambda>ts. if ts = [] then ''[]''
              else ''[{"id":"1","name":"call","priority":"Urgent","done":false,"createdAt":1}]'')
       [LoadEffect, SaveEffect]
       (initial,
        \<lparr>items = [STORAGE_KEY \<mapsto> ''[{"id":"1","name":"call","priority":"Urgent","done":false,"createdAt":1}]''],
          getItem_is_function = True, setItem_is_function = True,
          getItem_rejects = False, setItem_rejects = False\<rparr>))) STORAGE_KEY
     = Some ''[{"id":"1","name":"call","priority":"Urgent","done":false,"createdAt":1}]''\<close>
  by code_simp

end
